theory Spec2Isabelle
  imports Main "HOL-Library.AList" "HOL-Library.Char_ord" "HOL-Library.List_Lexorder"
    "HOL-Library.Multiset"
begin

section \<open>Values, dictionaries and errors\<close>

text \<open>
  The static-data service of \<^verbatim>\<open>cassiopeia/datastores/riotapi/staticdata.py\<close> works on
  loosely typed Python dictionaries: the query, the request parameters, the payload
  returned by the transport and the records built from it. They are modelled as values
  of one datatype. A dictionary is an association list in insertion order; a key of a
  dictionary (and an element of a list) is a string or an integer. A set of strings is
  kept as the list of its elements in iteration order, so that a statement about the
  iteration order can be made at all; two such values denote the same set when the
  lists have the same elements.

  A platform is the enum member of \<^verbatim>\<open>cassiopeia.data.Platform\<close>, which is not part of
  the sources: only the three attributes the service reads are kept.
\<close>

record platform =
  pvalue :: string
  region :: string
  default_locale :: string

datatype pykey = KInt int | KStr string

datatype pyval =
    VNone
  | VBool bool
  | VInt int
  | VStr string
  | VPlatform platform
  | VSet "string list"
  | VList "pykey list"
  | VDict "(pykey \<times> pyval) list"

datatype error =
    InvalidQuery
  | NotFoundError
  | APINotFoundError
  | KeyError
  | TypeError
  | AttributeError
  | ValueError
  | TransportFailure

type_synonym query = "(string \<times> pyval) list"

definition andthen :: "error + 'a \<Rightarrow> ('a \<Rightarrow> error + 'b) \<Rightarrow> error + 'b" where
  "andthen m f = (case m of Inl e \<Rightarrow> Inl e | Inr x \<Rightarrow> f x)"

text \<open>\<^verbatim>\<open>query[k]\<close>, \<^verbatim>\<open>k in query\<close>, \<^verbatim>\<open>query[k] = v\<close> and \<^verbatim>\<open>query.pop(k)\<close> on a query.\<close>

definition q_get :: "query \<Rightarrow> string \<Rightarrow> error + pyval" where
  "q_get q k = (case map_of q k of None \<Rightarrow> Inl KeyError | Some v \<Rightarrow> Inr v)"

definition q_has :: "query \<Rightarrow> string \<Rightarrow> bool" where
  "q_has q k = (map_of q k \<noteq> None)"

definition q_set :: "query \<Rightarrow> string \<Rightarrow> pyval \<Rightarrow> query" where
  "q_set q k v = AList.update k v q"

definition q_pop :: "query \<Rightarrow> string \<Rightarrow> query" where
  "q_pop q k = AList.delete k q"

text \<open>
  \<^verbatim>\<open>d[k]\<close> and \<^verbatim>\<open>d[k] = v\<close> on a value. Only a dictionary is subscripted by the code
  with success; a missing key is a KeyError and any other value a TypeError.
\<close>

fun subscript :: "pyval \<Rightarrow> pykey \<Rightarrow> error + pyval" where
  "subscript (VDict kvs) k = (case map_of kvs k of None \<Rightarrow> Inl KeyError | Some v \<Rightarrow> Inr v)"
| "subscript _ k = Inl TypeError"

fun set_item :: "pyval \<Rightarrow> string \<Rightarrow> pyval \<Rightarrow> error + pyval" where
  "set_item (VDict kvs) k v = Inr (VDict (AList.update (KStr k) v kvs))"
| "set_item _ k v = Inl TypeError"

text \<open>\<^verbatim>\<open>k not in d\<close> for a record \<^verbatim>\<open>d\<close>.\<close>

fun lacks :: "pyval \<Rightarrow> string \<Rightarrow> error + bool" where
  "lacks (VDict kvs) k = Inr (map_of kvs (KStr k) = None)"
| "lacks (VSet xs) k = Inr (k \<notin> set xs)"
| "lacks (VList xs) k = Inr (KStr k \<notin> set xs)"
| "lacks _ k = Inl TypeError"

text \<open>\<^verbatim>\<open>query["platform"].region.value\<close> and \<^verbatim>\<open>query["platform"].default_locale\<close>.\<close>

definition region_value :: "query \<Rightarrow> error + pyval" where
  "region_value q = andthen (q_get q ''platform'')
     (\<lambda>p. case p of VPlatform pl \<Rightarrow> Inr (VStr (region pl)) | _ \<Rightarrow> Inl AttributeError)"

text \<open>\<^verbatim>\<open>str(id)\<close> for an element of the requested ids.\<close>

function digits :: "int \<Rightarrow> string" where
  "digits n = (if n < 10 then [''0123456789'' ! nat n]
               else digits (n div 10) @ [''0123456789'' ! nat (n mod 10)])"
  by pat_completeness auto
termination
  by (relation "measure nat") auto

declare digits.simps [simp del]

definition str_int :: "int \<Rightarrow> string" where
  "str_int i = (if i < 0 then CHR ''-'' # digits (- i) else digits i)"

fun str_key :: "pykey \<Rightarrow> string" where
  "str_key (KInt i) = str_int i"
| "str_key (KStr s) = s"

text \<open>\<^verbatim>\<open>",".join(list(v))\<close>: the elements of an iterable of strings, joined.\<close>

fun join :: "string \<Rightarrow> string list \<Rightarrow> string" where
  "join sep [] = []"
| "join sep [x] = x"
| "join sep (x # y # ys) = x @ sep @ join sep (y # ys)"

fun key_strs :: "pykey list \<Rightarrow> error + string list" where
  "key_strs [] = Inr []"
| "key_strs (KStr s # ks) = andthen (key_strs ks) (\<lambda>r. Inr (s # r))"
| "key_strs (KInt i # ks) = Inl TypeError"

fun join_tags :: "pyval \<Rightarrow> error + pyval" where
  "join_tags (VSet xs) = Inr (VStr (join '','' xs))"
| "join_tags (VStr s) = Inr (VStr (join '','' (map (\<lambda>c. [c]) s)))"
| "join_tags (VList ks) = andthen (key_strs ks) (\<lambda>xs. Inr (VStr (join '','' xs)))"
| "join_tags (VDict kvs) = andthen (key_strs (map fst kvs)) (\<lambda>xs. Inr (VStr (join '','' xs)))"
| "join_tags _ = Inl TypeError"

text \<open>The elements a \<^verbatim>\<open>for\<close> loop sees when it iterates over a value.\<close>

fun py_iter :: "pyval \<Rightarrow> error + pykey list" where
  "py_iter (VList ks) = Inr ks"
| "py_iter (VSet xs) = Inr (map KStr xs)"
| "py_iter (VStr s) = Inr (map (\<lambda>c. KStr [c]) s)"
| "py_iter (VDict kvs) = Inr (map fst kvs)"
| "py_iter _ = Inl TypeError"

text \<open>
  \<^verbatim>\<open>a == b\<close> where \<^verbatim>\<open>b\<close> is the requested id or name: a boolean equals the integer
  it stands for, two sets are equal when their elements are, everything else is
  compared structurally.
\<close>

fun py_eq :: "pyval \<Rightarrow> pyval \<Rightarrow> bool" where
  "py_eq (VBool b) (VInt i) = (i = (if b then 1 else 0))"
| "py_eq (VInt i) (VBool b) = (i = (if b then 1 else 0))"
| "py_eq (VSet xs) (VSet ys) = (set xs = set ys)"
| "py_eq a b = (a = b)"

section \<open>Query validation\<close>

text \<open>
  Modelled from the spec: the validator class \<^verbatim>\<open>Query\<close> is imported from the package
  \<^verbatim>\<open>datapipelines\<close> and is not part of the sources; only the schema declarations
  are. The interpreter \<open>validate\<close> below follows section 4.1 of the specification: the
  declarations are checked in order; a required field must be present with the declared
  type; of two alternative required fields exactly one must be present; an optional
  field is type-checked when it is present and a type is declared, and is filled from
  its default when it is absent. The defaults are inserted into the query.
\<close>

datatype pytype = TInt | TStr | TPlatform | TIterable

datatype default_fn = GetDefaultVersion | GetDefaultLocale

datatype field_req =
    Has string pytype
  | HasOr string pytype string pytype
  | CanHaveAs string pytype
  | CanHaveDefaultFn string default_fn pytype
  | CanHaveDefault string pyval

type_synonym schema = "field_req list"

text \<open>
  The context carries the pipeline; the only use the service makes of it is
  \<^verbatim>\<open>pipeline.get(RealmDto, {"platform": p})\<close>. The default context is \<^verbatim>\<open>None\<close>.
\<close>

type_synonym pipeline_context = "(pyval \<Rightarrow> error + pyval) option"

fun has_type :: "pytype \<Rightarrow> pyval \<Rightarrow> bool" where
  "has_type TInt (VInt i) = True"
| "has_type TStr (VStr s) = True"
| "has_type TPlatform (VPlatform p) = True"
| "has_type TIterable (VStr s) = True"
| "has_type TIterable (VSet xs) = True"
| "has_type TIterable (VList ks) = True"
| "has_type TIterable (VDict kvs) = True"
| "has_type _ _ = False"

definition get_default_version :: "query \<Rightarrow> pipeline_context \<Rightarrow> error + pyval" where
  "get_default_version q ctx =
     (case ctx of None \<Rightarrow> Inl TypeError
      | Some pipeline_get \<Rightarrow>
          andthen (q_get q ''platform'') (\<lambda>p.
          andthen (pipeline_get p) (\<lambda>realms. subscript realms (KStr ''v''))))"

definition get_default_locale :: "query \<Rightarrow> pipeline_context \<Rightarrow> error + pyval" where
  "get_default_locale q ctx = andthen (q_get q ''platform'')
     (\<lambda>p. case p of VPlatform pl \<Rightarrow> Inr (VStr (default_locale pl)) | _ \<Rightarrow> Inl AttributeError)"

fun apply_default :: "default_fn \<Rightarrow> query \<Rightarrow> pipeline_context \<Rightarrow> error + pyval" where
  "apply_default GetDefaultVersion q ctx = get_default_version q ctx"
| "apply_default GetDefaultLocale q ctx = get_default_locale q ctx"

fun check_field :: "pipeline_context \<Rightarrow> field_req \<Rightarrow> query \<Rightarrow> error + query" where
  "check_field ctx (Has k t) q =
     (case map_of q k of None \<Rightarrow> Inl InvalidQuery
      | Some v \<Rightarrow> if has_type t v then Inr q else Inl InvalidQuery)"
| "check_field ctx (HasOr k1 t1 k2 t2) q =
     (case (map_of q k1, map_of q k2) of
        (Some v, None) \<Rightarrow> if has_type t1 v then Inr q else Inl InvalidQuery
      | (None, Some v) \<Rightarrow> if has_type t2 v then Inr q else Inl InvalidQuery
      | _ \<Rightarrow> Inl InvalidQuery)"
| "check_field ctx (CanHaveAs k t) q =
     (case map_of q k of None \<Rightarrow> Inr q
      | Some v \<Rightarrow> if has_type t v then Inr q else Inl InvalidQuery)"
| "check_field ctx (CanHaveDefaultFn k f t) q =
     (case map_of q k of
        None \<Rightarrow> andthen (apply_default f q ctx) (\<lambda>v. Inr (q_set q k v))
      | Some v \<Rightarrow> if has_type t v then Inr q else Inl InvalidQuery)"
| "check_field ctx (CanHaveDefault k d) q =
     (case map_of q k of None \<Rightarrow> Inr (q_set q k d) | Some v \<Rightarrow> Inr q)"

fun validate :: "pipeline_context \<Rightarrow> schema \<Rightarrow> query \<Rightarrow> error + query" where
  "validate ctx [] q = Inr q"
| "validate ctx (r # rs) q = andthen (check_field ctx r q) (validate ctx rs)"

section \<open>The query fingerprint\<close>

text \<open>
  \<^verbatim>\<open>calculate_hash\<close> (lines 45 to 50): the values of the query in the order of the
  sorted keys, every set replaced by its hash. The helper \<^verbatim>\<open>_hash_included_data\<close>
  is imported from \<^verbatim>\<open>datastores/uniquekeys.py\<close>, which is not part of the sources; it is
  a parameter \<open>h\<close> of the model, a function of the set in its iteration order.
\<close>

definition hash_value :: "(string list \<Rightarrow> int) \<Rightarrow> pyval \<Rightarrow> pyval" where
  "hash_value h v = (case v of VSet xs \<Rightarrow> VInt (h xs) | _ \<Rightarrow> v)"

definition calculate_hash :: "(string list \<Rightarrow> int) \<Rightarrow> query \<Rightarrow> pyval list" where
  "calculate_hash h q = map (hash_value h) (map snd (sort_key fst q))"

text \<open>
  Modelled from the spec: \<^verbatim>\<open>_hash_included_data\<close> is missing from the sources; the
  specification (section 3) says that a set-valued parameter is reduced to a stable
  hash, one that does not depend on the order in which the set is iterated.
\<close>

definition stable_hash :: "(string list \<Rightarrow> int) \<Rightarrow> bool" where
  "stable_hash h = (\<forall>xs ys. set xs = set ys \<longrightarrow> h xs = h ys)"

text \<open>Two values that differ at most in the iteration order of a set.\<close>

definition same_value :: "pyval \<Rightarrow> pyval \<Rightarrow> bool" where
  "same_value v w = (case (v, w) of (VSet xs, VSet ys) \<Rightarrow> set xs = set ys | _ \<Rightarrow> v = w)"

text \<open>
  Two queries with the same keys and, at every key, the same value: they differ at most
  in the insertion order of the keys and in the iteration order of their sets.
\<close>

definition same_query :: "query \<Rightarrow> query \<Rightarrow> bool" where
  "same_query q1 q2 =
     (distinct (map fst q1) \<and> distinct (map fst q2) \<and>
      fst ` set q1 = fst ` set q2 \<and>
      (\<forall>k \<in> fst ` set q1. same_value (the (map_of q1 k)) (the (map_of q2 k))))"

section \<open>The service: environment, state and transport\<close>

text \<open>
  The collaborators of the service are parameters: the configuration flag
  \<^verbatim>\<open>settings.request_by_id\<close>, the pipeline context of the call, the transport
  \<^verbatim>\<open>self._get\<close> (its answer may depend on the requests made before) and the hash of an
  included-data set. A request keeps the parts the URL is formatted from: the lowered
  platform value, the path below \<^verbatim>\<open>/lol/static-data/v3/\<close>, the id of a single item,
  the parameters and the name of the rate-limiter bucket.
\<close>

record request =
  host :: string
  path :: string
  url_id :: "pyval option"
  params :: query
  bucket :: string

record env =
  request_by_id :: bool
  pipeline :: pipeline_context
  transport :: "request list \<Rightarrow> request \<Rightarrow> error + pyval"
  hash_included_data :: "string list \<Rightarrow> int"

datatype list_type =
  ChampionListDto | RuneListDto | MasteryListDto | ItemListDto | SummonerSpellListDto | MapListDto

text \<open>
  The state of the service is \<^verbatim>\<open>self._cache\<close>, one dictionary from fingerprints to list
  records for each list type, together with the log of the requests handed to the
  transport. A slot of the cache is bound once and never rebound, so the list record a
  call returns is identified by its slot: a list operation returns the fingerprint
  with the record, and a write to a record of that list is a write to the slot.
\<close>

record state =
  cache :: "list_type \<Rightarrow> pyval list \<Rightarrow> pyval option"
  calls :: "request list"

definition init_state :: state where
  "init_state = \<lparr>cache = (\<lambda>t. Map.empty), calls = []\<rparr>"

definition lower :: "string \<Rightarrow> string" where
  "lower s = map (\<lambda>c. case map_of (zip ''ABCDEFGHIJKLMNOPQRSTUVWXYZ''
                                         ''abcdefghijklmnopqrstuvwxyz'') c of
                         None \<Rightarrow> c | Some d \<Rightarrow> d) s"

text \<open>\<^verbatim>\<open>query["platform"].value.lower()\<close>.\<close>

definition platform_host :: "query \<Rightarrow> error + string" where
  "platform_host q = andthen (q_get q ''platform'')
     (\<lambda>p. case p of VPlatform pl \<Rightarrow> Inr (lower (pvalue pl)) | _ \<Rightarrow> Inl AttributeError)"

text \<open>A dictionary display: the values are evaluated in order.\<close>

fun build_params :: "(string \<times> (error + pyval)) list \<Rightarrow> error + query" where
  "build_params [] = Inr []"
| "build_params ((k, rhs) # rest) =
     andthen rhs (\<lambda>v. andthen (build_params rest) (\<lambda>r. Inr ((k, v) # r)))"

text \<open>\<^verbatim>\<open>if "version" in query: params["version"] = query["version"]\<close>.\<close>

definition add_version :: "query \<Rightarrow> query \<Rightarrow> query" where
  "add_version q ps = (case map_of q ''version'' of None \<Rightarrow> ps | Some v \<Rightarrow> q_set ps ''version'' v)"

definition make_request ::
  "query \<Rightarrow> string \<Rightarrow> pyval option \<Rightarrow> query \<Rightarrow> string \<Rightarrow> error + request" where
  "make_request q p i ps b = andthen (platform_host q)
     (\<lambda>h. Inr \<lparr>host = h, path = p, url_id = i, params = ps, bucket = b\<rparr>)"

text \<open>
  The call of the transport inside \<^verbatim>\<open>try ... except APINotFoundError\<close>: the request is
  logged, a remote not-found becomes \<^verbatim>\<open>NotFoundError\<close>, any other failure propagates.
\<close>

definition fetch :: "env \<Rightarrow> request \<Rightarrow> state \<Rightarrow> (error + pyval) \<times> state" where
  "fetch env req s =
     (let s' = s\<lparr>calls := calls s @ [req]\<rparr> in
      case transport env (calls s) req of
        Inl e \<Rightarrow> (Inl (if e = APINotFoundError then NotFoundError else e), s')
      | Inr data \<Rightarrow> (Inr data, s'))"

section \<open>Stamping and normalization\<close>

text \<open>
  A run of assignments \<^verbatim>\<open>d[k] = rhs\<close>: each right-hand side is evaluated, then the
  item is set. \<open>assign_partial\<close> also gives the record as it is when an assignment
  fails, which matters when the record is shared with the cache.
\<close>

fun assign_partial :: "pyval \<Rightarrow> (string \<times> (error + pyval)) list \<Rightarrow> error option \<times> pyval" where
  "assign_partial d [] = (None, d)"
| "assign_partial d ((k, rhs) # rest) =
     (case rhs of Inl e \<Rightarrow> (Some e, d)
      | Inr v \<Rightarrow> (case set_item d k v of Inl e \<Rightarrow> (Some e, d)
                  | Inr d' \<Rightarrow> assign_partial d' rest))"

definition assign_all :: "pyval \<Rightarrow> (string \<times> (error + pyval)) list \<Rightarrow> error + pyval" where
  "assign_all d as = (case assign_partial d as of (None, d') \<Rightarrow> Inr d' | (Some e, d') \<Rightarrow> Inl e)"

text \<open>\<^verbatim>\<open>for x in data["data"].values(): body\<close>, the body writing to \<^verbatim>\<open>x\<close> in place.\<close>

fun map_values :: "(pyval \<Rightarrow> error + pyval) \<Rightarrow> (pykey \<times> pyval) list \<Rightarrow> error + (pykey \<times> pyval) list" where
  "map_values f [] = Inr []"
| "map_values f ((k, v) # rest) =
     andthen (f v) (\<lambda>v'. andthen (map_values f rest) (\<lambda>r. Inr ((k, v') # r)))"

definition data_values :: "pyval \<Rightarrow> error + (pykey \<times> pyval) list" where
  "data_values data = andthen (subscript data (KStr ''data''))
     (\<lambda>d. case d of VDict kvs \<Rightarrow> Inr kvs | _ \<Rightarrow> Inl AttributeError)"

definition for_each_value :: "pyval \<Rightarrow> (pyval \<Rightarrow> error + pyval) \<Rightarrow> error + pyval" where
  "for_each_value data body = andthen (data_values data)
     (\<lambda>kvs. andthen (map_values body kvs) (\<lambda>kvs'. set_item data ''data'' (VDict kvs')))"

text \<open>
  \<^verbatim>\<open>for x in data["data"]: body\<close>: the loop of \<^verbatim>\<open>get_summoner_spell_list\<close> (line 1046)
  runs over the dictionary itself, that is over its keys.
\<close>

fun key_val :: "pykey \<Rightarrow> pyval" where
  "key_val (KInt i) = VInt i"
| "key_val (KStr s) = VStr s"

fun for_each_elem :: "(pyval \<Rightarrow> error + pyval) \<Rightarrow> pykey list \<Rightarrow> error + unit" where
  "for_each_elem f [] = Inr ()"
| "for_each_elem f (k # ks) = andthen (f (key_val k)) (\<lambda>_. for_each_elem f ks)"

text \<open>The four (for a map, three) assignments that stamp a record from the query.\<close>

definition stamp_fields :: "query \<Rightarrow> error + pyval \<Rightarrow> (string \<times> (error + pyval)) list" where
  "stamp_fields q version =
     [(''region'', region_value q), (''version'', version),
      (''locale'', q_get q ''locale''), (''includedData'', q_get q ''includedData'')]"

definition stamp_fields_map :: "query \<Rightarrow> (string \<times> (error + pyval)) list" where
  "stamp_fields_map q =
     [(''region'', region_value q), (''version'', q_get q ''version''),
      (''locale'', q_get q ''locale'')]"

definition stamp_list_fields :: "query \<Rightarrow> (string \<times> (error + pyval)) list" where
  "stamp_list_fields q =
     [(''region'', region_value q), (''locale'', q_get q ''locale''),
      (''includedData'', q_get q ''includedData'')]"

text \<open>The repair of an item record (lines 675 to 684, 723 to 732, 771 to 780).\<close>

definition default_field :: "pyval \<Rightarrow> string \<Rightarrow> pyval \<Rightarrow> error + pyval" where
  "default_field item k v =
     andthen (lacks item k) (\<lambda>absent. if absent then set_item item k v else Inr item)"

definition normalize_item :: "pyval \<Rightarrow> error + pyval" where
  "normalize_item item =
     andthen (subscript item (KStr ''id'')) (\<lambda>i.
     andthen (if py_eq i (VInt 3632) then set_item item ''name'' (VStr '''') else Inr item) (\<lambda>item1.
     andthen (default_field item1 ''tags'' (VList [])) (\<lambda>item2.
     andthen (default_field item2 ''depth'' (VInt 1)) (\<lambda>item3.
     andthen (default_field item3 ''colloq'' (VStr '''')) (\<lambda>item4.
     default_field item4 ''plaintext'' (VStr ''''))))))"

section \<open>The schemas\<close>

text \<open>The schema declarations of the source, in the order of the file.\<close>

definition validate_get_champion_query :: schema where
  "validate_get_champion_query =
     [HasOr ''id'' TInt ''name'' TStr, Has ''platform'' TPlatform,
      CanHaveDefaultFn ''version'' GetDefaultVersion TStr,
      CanHaveDefaultFn ''locale'' GetDefaultLocale TStr,
      CanHaveDefault ''includedData'' (VSet [''all''])]"

definition validate_get_many_champion_query :: schema where
  "validate_get_many_champion_query =
     [Has ''ids'' TIterable, Has ''platform'' TPlatform, CanHaveAs ''version'' TStr,
      CanHaveDefaultFn ''locale'' GetDefaultLocale TStr,
      CanHaveDefault ''includedData'' (VSet [''all''])]"

definition validate_get_champion_list_query :: schema where
  "validate_get_champion_list_query =
     [Has ''platform'' TPlatform, CanHaveAs ''version'' TStr,
      CanHaveDefaultFn ''locale'' GetDefaultLocale TStr,
      CanHaveDefault ''includedData'' (VSet [''all'']),
      CanHaveDefault ''dataById'' (VBool False)]"

definition validate_get_mastery_query :: schema where
  "validate_get_mastery_query =
     [HasOr ''id'' TInt ''name'' TStr, Has ''platform'' TPlatform,
      CanHaveDefaultFn ''version'' GetDefaultVersion TStr,
      CanHaveDefaultFn ''locale'' GetDefaultLocale TStr,
      CanHaveDefault ''includedData'' (VSet [''all''])]"

definition validate_get_many_mastery_query :: schema where
  "validate_get_many_mastery_query =
     [Has ''ids'' TIterable, Has ''platform'' TPlatform, CanHaveAs ''version'' TStr,
      CanHaveDefaultFn ''locale'' GetDefaultLocale TStr,
      CanHaveDefault ''includedData'' (VSet [''all''])]"

definition validate_get_mastery_list_query :: schema where
  "validate_get_mastery_list_query =
     [Has ''platform'' TPlatform, CanHaveAs ''version'' TStr,
      CanHaveDefaultFn ''locale'' GetDefaultLocale TStr,
      CanHaveDefault ''includedData'' (VSet [''all''])]"

definition validate_get_rune_query :: schema where
  "validate_get_rune_query =
     [HasOr ''id'' TInt ''name'' TStr, Has ''platform'' TPlatform,
      CanHaveDefaultFn ''version'' GetDefaultVersion TStr,
      CanHaveDefaultFn ''locale'' GetDefaultLocale TStr,
      CanHaveDefault ''includedData'' (VSet [''all''])]"

definition validate_get_many_rune_query :: schema where
  "validate_get_many_rune_query =
     [Has ''ids'' TIterable, Has ''platform'' TPlatform, CanHaveAs ''version'' TStr,
      CanHaveDefaultFn ''locale'' GetDefaultLocale TStr,
      CanHaveDefault ''includedData'' (VSet [''all''])]"

definition validate_get_rune_list_query :: schema where
  "validate_get_rune_list_query =
     [Has ''platform'' TPlatform, CanHaveAs ''version'' TStr,
      CanHaveDefaultFn ''locale'' GetDefaultLocale TStr,
      CanHaveDefault ''includedData'' (VSet [''all''])]"

definition validate_get_item_query :: schema where
  "validate_get_item_query =
     [HasOr ''id'' TInt ''name'' TStr, Has ''platform'' TPlatform,
      CanHaveDefaultFn ''version'' GetDefaultVersion TStr,
      CanHaveDefaultFn ''locale'' GetDefaultLocale TStr,
      CanHaveDefault ''includedData'' (VSet [''all''])]"

definition validate_get_many_item_query :: schema where
  "validate_get_many_item_query =
     [Has ''ids'' TIterable, Has ''platform'' TPlatform, CanHaveAs ''version'' TStr,
      CanHaveDefaultFn ''locale'' GetDefaultLocale TStr,
      CanHaveDefault ''includedData'' (VSet [''all''])]"

definition validate_get_item_list_query :: schema where
  "validate_get_item_list_query =
     [Has ''platform'' TPlatform, CanHaveAs ''version'' TStr,
      CanHaveDefaultFn ''locale'' GetDefaultLocale TStr,
      CanHaveDefault ''includedData'' (VSet [''all''])]"

definition validate_get_map_query :: schema where
  "validate_get_map_query =
     [HasOr ''id'' TInt ''name'' TStr, Has ''platform'' TPlatform,
      CanHaveDefaultFn ''version'' GetDefaultVersion TStr,
      CanHaveDefaultFn ''locale'' GetDefaultLocale TStr]"

definition validate_get_map_list_query :: schema where
  "validate_get_map_list_query =
     [Has ''platform'' TPlatform, CanHaveAs ''version'' TStr,
      CanHaveDefaultFn ''locale'' GetDefaultLocale TStr,
      CanHaveDefault ''includedData'' (VSet [''all''])]"

definition validate_get_summoner_spell_query :: schema where
  "validate_get_summoner_spell_query =
     [HasOr ''id'' TInt ''name'' TStr, Has ''platform'' TPlatform,
      CanHaveDefaultFn ''version'' GetDefaultVersion TStr,
      CanHaveDefaultFn ''locale'' GetDefaultLocale TStr,
      CanHaveDefault ''includedData'' (VSet [''all''])]"

definition validate_get_many_summoner_spell_query :: schema where
  "validate_get_many_summoner_spell_query =
     [Has ''ids'' TIterable, Has ''platform'' TPlatform, CanHaveAs ''version'' TStr,
      CanHaveDefaultFn ''locale'' GetDefaultLocale TStr,
      CanHaveDefault ''includedData'' (VSet [''all''])]"

definition validate_get_summoner_spell_list_query :: schema where
  "validate_get_summoner_spell_list_query =
     [Has ''platform'' TPlatform, CanHaveAs ''version'' TStr,
      CanHaveDefaultFn ''locale'' GetDefaultLocale TStr,
      CanHaveDefault ''includedData'' (VSet [''all''])]"

section \<open>The list operations\<close>

text \<open>
  Every list operation has the same frame (for the champions, lines 162 to 196):
  validate; compute the fingerprint; return the cached record on a hit; otherwise
  build the request, fetch, stamp, store and return. The frame takes the parts that
  differ: the schema, the list type, the request and the stamping of the payload.
\<close>

definition get_list ::
  "env \<Rightarrow> schema \<Rightarrow> list_type \<Rightarrow> (query \<Rightarrow> error + request) \<Rightarrow>
   (query \<Rightarrow> pyval \<Rightarrow> error + pyval) \<Rightarrow> query \<Rightarrow> state \<Rightarrow>
   (error + pyval list \<times> pyval) \<times> state" where
  "get_list env sch t mk_request stamp query0 s =
     (case validate (pipeline env) sch query0 of
        Inl e \<Rightarrow> (Inl e, s)
      | Inr query \<Rightarrow>
          let ahash = calculate_hash (hash_included_data env) query in
          (case cache s t ahash of
             Some result \<Rightarrow> (Inr (ahash, result), s)
           | None \<Rightarrow>
               (case mk_request query of
                  Inl e \<Rightarrow> (Inl e, s)
                | Inr req \<Rightarrow>
                    (case fetch env req s of
                       (Inl e, s1) \<Rightarrow> (Inl e, s1)
                     | (Inr data, s1) \<Rightarrow>
                         (case stamp query data of
                            Inl e \<Rightarrow> (Inl e, s1)
                          | Inr result \<Rightarrow>
                              (Inr (ahash, result),
                               s1\<lparr>cache := (cache s1)(t := (cache s1 t)(ahash \<mapsto> result))\<rparr>))))))"

text \<open>The parameters and the request of the list operations.\<close>

definition locale_tags :: "query \<Rightarrow> (string \<times> (error + pyval)) list" where
  "locale_tags q =
     [(''locale'', q_get q ''locale''),
      (''tags'', andthen (q_get q ''includedData'') join_tags)]"

definition champion_list_request :: "query \<Rightarrow> error + request" where
  "champion_list_request q =
     andthen (build_params (locale_tags q @ [(''dataById'', q_get q ''dataById'')]))
       (\<lambda>ps. make_request q ''champions'' None (add_version q ps) ''staticdata/champions'')"

definition mastery_list_request :: "query \<Rightarrow> error + request" where
  "mastery_list_request q = andthen (build_params (locale_tags q))
     (\<lambda>ps. make_request q ''masteries'' None (add_version q ps) ''staticdata/masteries'')"

definition rune_list_request :: "query \<Rightarrow> error + request" where
  "rune_list_request q = andthen (build_params (locale_tags q))
     (\<lambda>ps. make_request q ''runes'' None (add_version q ps) ''staticdata/runes'')"

definition item_list_request :: "query \<Rightarrow> error + request" where
  "item_list_request q = andthen (build_params (locale_tags q))
     (\<lambda>ps. make_request q ''items'' None (add_version q ps) ''staticdata/items'')"

definition map_list_request :: "query \<Rightarrow> error + request" where
  "map_list_request q = andthen (build_params [(''locale'', q_get q ''locale'')])
     (\<lambda>ps. make_request q ''maps'' None (add_version q ps) ''staticdata/maps'')"

definition summoner_spell_list_request :: "query \<Rightarrow> error + request" where
  "summoner_spell_list_request q = andthen (build_params (locale_tags q))
     (\<lambda>ps. make_request q ''summoner-spells'' None (add_version q ps)
             ''staticdata/summoner-spells'')"

text \<open>
  The stamping of the payload. The champions, runes and items take the version of a record
  from the query (lines 191, 573, 782), the masteries from the payload (line 394).
\<close>

definition stamp_champion_list :: "query \<Rightarrow> pyval \<Rightarrow> error + pyval" where
  "stamp_champion_list q data0 =
     andthen (assign_all data0 (stamp_list_fields q)) (\<lambda>data.
     for_each_value data (\<lambda>champion.
       assign_all champion (stamp_fields q (q_get q ''version''))))"

definition stamp_mastery_list :: "query \<Rightarrow> pyval \<Rightarrow> error + pyval" where
  "stamp_mastery_list q data0 =
     andthen (assign_all data0 (stamp_list_fields q)) (\<lambda>data.
     for_each_value data (\<lambda>mastery.
       assign_all mastery (stamp_fields q (subscript data (KStr ''version'')))))"

definition stamp_rune_list :: "query \<Rightarrow> pyval \<Rightarrow> error + pyval" where
  "stamp_rune_list q data0 =
     andthen (assign_all data0 (stamp_list_fields q)) (\<lambda>data.
     for_each_value data (\<lambda>rune.
       assign_all rune (stamp_fields q (q_get q ''version''))))"

definition stamp_item_list :: "query \<Rightarrow> pyval \<Rightarrow> error + pyval" where
  "stamp_item_list q data0 =
     andthen (assign_all data0 (stamp_list_fields q)) (\<lambda>data.
     for_each_value data (\<lambda>item.
       andthen (normalize_item item) (\<lambda>item'.
       assign_all item' (stamp_fields q (q_get q ''version'')))))"

definition stamp_map_list :: "query \<Rightarrow> pyval \<Rightarrow> error + pyval" where
  "stamp_map_list q data0 =
     assign_all data0 [(''region'', region_value q), (''locale'', q_get q ''locale'')]"

definition stamp_summoner_spell_list :: "query \<Rightarrow> pyval \<Rightarrow> error + pyval" where
  "stamp_summoner_spell_list q data0 =
     andthen (assign_all data0 (stamp_list_fields q)) (\<lambda>data.
     andthen (subscript data (KStr ''data'')) (\<lambda>d.
     andthen (py_iter d) (\<lambda>elems.
     andthen (for_each_elem (\<lambda>summoner_spell.
                assign_all summoner_spell (stamp_fields q (q_get q ''version''))) elems)
       (\<lambda>_. Inr data))))"

definition get_champion_list :: "env \<Rightarrow> query \<Rightarrow> state \<Rightarrow> (error + pyval list \<times> pyval) \<times> state" where
  "get_champion_list env = get_list env validate_get_champion_list_query ChampionListDto
     champion_list_request stamp_champion_list"

definition get_mastery_list :: "env \<Rightarrow> query \<Rightarrow> state \<Rightarrow> (error + pyval list \<times> pyval) \<times> state" where
  "get_mastery_list env = get_list env validate_get_mastery_list_query MasteryListDto
     mastery_list_request stamp_mastery_list"

definition get_rune_list :: "env \<Rightarrow> query \<Rightarrow> state \<Rightarrow> (error + pyval list \<times> pyval) \<times> state" where
  "get_rune_list env = get_list env validate_get_rune_list_query RuneListDto
     rune_list_request stamp_rune_list"

definition get_item_list :: "env \<Rightarrow> query \<Rightarrow> state \<Rightarrow> (error + pyval list \<times> pyval) \<times> state" where
  "get_item_list env = get_list env validate_get_item_list_query ItemListDto
     item_list_request stamp_item_list"

definition get_map_list :: "env \<Rightarrow> query \<Rightarrow> state \<Rightarrow> (error + pyval list \<times> pyval) \<times> state" where
  "get_map_list env = get_list env validate_get_map_list_query MapListDto
     map_list_request stamp_map_list"

definition get_summoner_spell_list ::
  "env \<Rightarrow> query \<Rightarrow> state \<Rightarrow> (error + pyval list \<times> pyval) \<times> state" where
  "get_summoner_spell_list env = get_list env validate_get_summoner_spell_list_query
     SummonerSpellListDto summoner_spell_list_request stamp_summoner_spell_list"

section \<open>The single-entity operations\<close>

text \<open>
  \<^verbatim>\<open>find_matching_attribute\<close>: the first record whose attribute equals the value, or
  \<^verbatim>\<open>None\<close>. The record found is an object of the list, so the model returns it with
  its position among the values of \<^verbatim>\<open>data\<close>.
\<close>

fun find_matching_attribute ::
  "(pykey \<times> pyval) list \<Rightarrow> string \<Rightarrow> pyval \<Rightarrow> error + (nat \<times> pyval) option" where
  "find_matching_attribute [] attrname attrvalue = Inr None"
| "find_matching_attribute ((k, dto) # rest) attrname attrvalue =
     (case dto of
        VDict kvs \<Rightarrow>
          if py_eq (case map_of kvs (KStr attrname) of None \<Rightarrow> VNone | Some x \<Rightarrow> x) attrvalue
          then Inr (Some (0, dto))
          else andthen (find_matching_attribute rest attrname attrvalue)
                 (\<lambda>res. Inr (map_option (\<lambda>(n, d). (Suc n, d)) res))
      | _ \<Rightarrow> Inl AttributeError)"

text \<open>The list record with the record at key \<open>k\<close> of its \<^verbatim>\<open>data\<close> replaced.\<close>

definition put_record :: "pyval \<Rightarrow> pykey \<Rightarrow> pyval \<Rightarrow> pyval" where
  "put_record lst k r =
     (case lst of
        VDict outer \<Rightarrow>
          (case map_of outer (KStr ''data'') of
             Some (VDict kvs) \<Rightarrow>
               VDict (AList.update (KStr ''data'') (VDict (AList.update k r kvs)) outer)
           | _ \<Rightarrow> lst)
      | _ \<Rightarrow> lst)"

text \<open>The list record with the \<open>n\<close>-th of the values of its \<^verbatim>\<open>data\<close> replaced.\<close>

definition put_record_at :: "pyval \<Rightarrow> nat \<Rightarrow> pyval \<Rightarrow> pyval" where
  "put_record_at lst n r =
     (case lst of
        VDict outer \<Rightarrow>
          (case map_of outer (KStr ''data'') of
             Some (VDict kvs) \<Rightarrow>
               if n < length kvs
               then VDict (AList.update (KStr ''data'')
                             (VDict (kvs[n := (fst (kvs ! n), r)])) outer)
               else lst
           | _ \<Rightarrow> lst)
      | _ \<Rightarrow> lst)"

text \<open>
  The list-and-filter path after the list has been obtained (for the champions, lines
  76 to 93). The record found belongs to the cached list, so the assignments that stamp
  it are writes to the cache slot of that list.
\<close>

definition find_in_list ::
  "list_type \<Rightarrow> (string \<times> (error + pyval)) list \<Rightarrow> query \<Rightarrow> pyval list \<times> pyval \<Rightarrow>
   state \<Rightarrow> (error + pyval) \<times> state" where
  "find_in_list t stamps query found s =
     (case found of (ahash, lst) \<Rightarrow>
        (case (if q_has query ''id'' then Inr ''id''
               else if q_has query ''name'' then Inr ''name'' else Inl ValueError) of
           Inl e \<Rightarrow> (Inl e, s)
         | Inr attrname \<Rightarrow>
             (case andthen (data_values lst) (\<lambda>dtos.
                   andthen (q_get query attrname) (find_matching_attribute dtos attrname)) of
                Inl e \<Rightarrow> (Inl e, s)
              | Inr None \<Rightarrow> (Inl NotFoundError, s)
              | Inr (Some (n, dto)) \<Rightarrow>
                  (case assign_partial dto stamps of
                     (err, dto') \<Rightarrow>
                       let s' = s\<lparr>cache := (cache s)(t := (cache s t)(ahash \<mapsto> put_record_at lst n dto'))\<rparr>
                       in (case err of None \<Rightarrow> (Inr dto', s') | Some e \<Rightarrow> (Inl e, s'))))))"

text \<open>The query handed to the list operation: a copy without the identity keys.\<close>

definition strip_identity :: "query \<Rightarrow> query" where
  "strip_identity q = q_pop (q_pop q ''id'') ''name''"

text \<open>The direct-fetch path (for the champions, lines 95 to 111).\<close>

definition item_request :: "query \<Rightarrow> string \<Rightarrow> string \<Rightarrow> error + request" where
  "item_request q p b =
     andthen (build_params ((''version'', q_get q ''version'') # locale_tags q)) (\<lambda>ps.
     andthen (platform_host q) (\<lambda>h.
     andthen (q_get q ''id'') (\<lambda>i.
       Inr \<lparr>host = h, path = p, url_id = Some i, params = ps, bucket = b\<rparr>)))"

definition get_direct ::
  "env \<Rightarrow> query \<Rightarrow> string \<Rightarrow> string \<Rightarrow> (pyval \<Rightarrow> error + pyval) \<Rightarrow> state \<Rightarrow>
   (error + pyval) \<times> state" where
  "get_direct env query p b repair s =
     (case item_request query p b of
        Inl e \<Rightarrow> (Inl e, s)
      | Inr req \<Rightarrow>
          (case fetch env req s of
             (Inl e, s1) \<Rightarrow> (Inl e, s1)
           | (Inr data, s1) \<Rightarrow>
               (andthen (assign_all data (stamp_fields query (q_get query ''version'')))
                  repair, s1)))"

definition get_champion :: "env \<Rightarrow> query \<Rightarrow> state \<Rightarrow> (error + pyval) \<times> state" where
  "get_champion env query0 s =
     (case validate (pipeline env) validate_get_champion_query query0 of
        Inl e \<Rightarrow> (Inl e, s)
      | Inr query \<Rightarrow>
          if request_by_id env \<or> q_has query ''name'' then
            (case get_champion_list env (strip_identity query) s of
               (Inl e, s1) \<Rightarrow> (Inl e, s1)
             | (Inr champions, s1) \<Rightarrow>
                 find_in_list ChampionListDto (stamp_fields query (q_get query ''version''))
                   query champions s1)
          else get_direct env query ''champions'' ''staticdata/champion'' Inr s)"

definition get_mastery :: "env \<Rightarrow> query \<Rightarrow> state \<Rightarrow> (error + pyval) \<times> state" where
  "get_mastery env query0 s =
     (case validate (pipeline env) validate_get_mastery_query query0 of
        Inl e \<Rightarrow> (Inl e, s)
      | Inr query \<Rightarrow>
          if request_by_id env \<or> q_has query ''name'' then
            (case get_mastery_list env (strip_identity query) s of
               (Inl e, s1) \<Rightarrow> (Inl e, s1)
             | (Inr masteries, s1) \<Rightarrow>
                 find_in_list MasteryListDto (stamp_fields query (q_get query ''version''))
                   query masteries s1)
          else get_direct env query ''masteries'' ''staticdata/mastery'' Inr s)"

definition get_rune :: "env \<Rightarrow> query \<Rightarrow> state \<Rightarrow> (error + pyval) \<times> state" where
  "get_rune env query0 s =
     (case validate (pipeline env) validate_get_rune_query query0 of
        Inl e \<Rightarrow> (Inl e, s)
      | Inr query \<Rightarrow>
          if request_by_id env \<or> q_has query ''name'' then
            (case get_rune_list env (strip_identity query) s of
               (Inl e, s1) \<Rightarrow> (Inl e, s1)
             | (Inr runes, s1) \<Rightarrow>
                 find_in_list RuneListDto (stamp_fields query (q_get query ''version''))
                   query runes s1)
          else get_direct env query ''runes'' ''staticdata/rune'' Inr s)"

definition get_item :: "env \<Rightarrow> query \<Rightarrow> state \<Rightarrow> (error + pyval) \<times> state" where
  "get_item env query0 s =
     (case validate (pipeline env) validate_get_item_query query0 of
        Inl e \<Rightarrow> (Inl e, s)
      | Inr query \<Rightarrow>
          if request_by_id env \<or> q_has query ''name'' then
            (case get_item_list env (strip_identity query) s of
               (Inl e, s1) \<Rightarrow> (Inl e, s1)
             | (Inr items, s1) \<Rightarrow>
                 find_in_list ItemListDto (stamp_fields query (q_get query ''version''))
                   query items s1)
          else get_direct env query ''items'' ''staticdata/item'' normalize_item s)"

text \<open>
  \<^verbatim>\<open>get_map\<close> (lines 846 to 875) has no \<^verbatim>\<open>else\<close> branch: when the condition is false
  the function ends without a \<^verbatim>\<open>return\<close>, and its value is \<^verbatim>\<open>None\<close>.
\<close>

definition get_map :: "env \<Rightarrow> query \<Rightarrow> state \<Rightarrow> (error + pyval) \<times> state" where
  "get_map env query0 s =
     (case validate (pipeline env) validate_get_map_query query0 of
        Inl e \<Rightarrow> (Inl e, s)
      | Inr query \<Rightarrow>
          if request_by_id env \<or> q_has query ''name'' then
            (case get_map_list env (strip_identity query) s of
               (Inl e, s1) \<Rightarrow> (Inl e, s1)
             | (Inr maps, s1) \<Rightarrow>
                 find_in_list MapListDto (stamp_fields_map query) query maps s1)
          else (Inr VNone, s))"

definition get_summoner_spell :: "env \<Rightarrow> query \<Rightarrow> state \<Rightarrow> (error + pyval) \<times> state" where
  "get_summoner_spell env query0 s =
     (case validate (pipeline env) validate_get_summoner_spell_query query0 of
        Inl e \<Rightarrow> (Inl e, s)
      | Inr query \<Rightarrow>
          if request_by_id env \<or> q_has query ''name'' then
            (case get_summoner_spell_list env (strip_identity query) s of
               (Inl e, s1) \<Rightarrow> (Inl e, s1)
             | (Inr summoner_spells, s1) \<Rightarrow>
                 find_in_list SummonerSpellListDto
                   (stamp_fields query (q_get query ''version'')) query summoner_spells s1)
          else get_direct env query ''summoner-spells'' ''staticdata/summoner-spell'' Inr s)"

section \<open>The get-many operations\<close>

text \<open>
  A get-many operation validates and fetches when it is called, and returns a
  generator. The generator is the closure of the loop over \<^verbatim>\<open>query["ids"]\<close>: it keeps
  the query, the fetched payload (which the loop writes to) and the ids still to come.
  A pull \<^verbatim>\<open>next(g)\<close> yields a record, raises, or signals the end; a generator that has
  raised is finished, as every Python generator is.
\<close>

datatype progress = Created | Running "pykey list" | Finished

record generator =
  element :: "query \<Rightarrow> pyval \<Rightarrow> pykey \<Rightarrow> error + pyval \<times> pyval"
  gquery :: query
  gdata :: pyval
  progress :: progress

datatype pull = Yield pyval | Raise error | StopIteration

fun step_ids :: "generator \<Rightarrow> pykey list \<Rightarrow> pull \<times> generator" where
  "step_ids g [] = (StopIteration, g\<lparr>progress := Finished\<rparr>)"
| "step_ids g (i # rest) =
     (case element g (gquery g) (gdata g) i of
        Inl e \<Rightarrow> (Raise e, g\<lparr>progress := Finished\<rparr>)
      | Inr (r, data') \<Rightarrow> (Yield r, g\<lparr>gdata := data', progress := Running rest\<rparr>))"

definition gen_next :: "generator \<Rightarrow> pull \<times> generator" where
  "gen_next g =
     (case progress g of
        Created \<Rightarrow>
          (case andthen (q_get (gquery g) ''ids'') py_iter of
             Inl e \<Rightarrow> (Raise e, g\<lparr>progress := Finished\<rparr>)
           | Inr ids \<Rightarrow> step_ids g ids)
      | Running ids \<Rightarrow> step_ids g ids
      | Finished \<Rightarrow> (StopIteration, g))"

text \<open>The results of \<open>n\<close> successive pulls.\<close>

fun pulls :: "nat \<Rightarrow> generator \<Rightarrow> pull list" where
  "pulls 0 g = []"
| "pulls (Suc n) g = (case gen_next g of (r, g') \<Rightarrow> r # pulls n g')"

text \<open>
  \<^verbatim>\<open>data["data"][key]\<close> inside \<^verbatim>\<open>try ... except KeyError\<close>: a missing key is a
  \<^verbatim>\<open>NotFoundError\<close>.
\<close>

definition lookup_record :: "pyval \<Rightarrow> pykey \<Rightarrow> error + pyval" where
  "lookup_record data k =
     (case andthen (subscript data (KStr ''data'')) (\<lambda>d. subscript d k) of
        Inl e \<Rightarrow> Inl (if e = KeyError then NotFoundError else e)
      | Inr r \<Rightarrow> Inr r)"

text \<open>
  The body of the loop for one id. The champions, masteries, runes and items look the record
  up under \<^verbatim>\<open>str(id)\<close> (lines 142, 347, 526, 715), the summoner spells under
  \<^verbatim>\<open>id\<close> (line 1001). The version stamped is the one of the payload.
\<close>

definition champion_element :: "query \<Rightarrow> pyval \<Rightarrow> pykey \<Rightarrow> error + pyval \<times> pyval" where
  "champion_element q data i =
     andthen (lookup_record data (KStr (str_key i))) (\<lambda>champion.
     andthen (assign_all champion (stamp_fields q (subscript data (KStr ''version'')))) (\<lambda>r.
       Inr (r, put_record data (KStr (str_key i)) r)))"

definition mastery_element :: "query \<Rightarrow> pyval \<Rightarrow> pykey \<Rightarrow> error + pyval \<times> pyval" where
  "mastery_element q data i =
     andthen (lookup_record data (KStr (str_key i))) (\<lambda>mastery.
     andthen (assign_all mastery (stamp_fields q (subscript data (KStr ''version'')))) (\<lambda>r.
       Inr (r, put_record data (KStr (str_key i)) r)))"

definition rune_element :: "query \<Rightarrow> pyval \<Rightarrow> pykey \<Rightarrow> error + pyval \<times> pyval" where
  "rune_element q data i =
     andthen (lookup_record data (KStr (str_key i))) (\<lambda>rune.
     andthen (assign_all rune (stamp_fields q (subscript data (KStr ''version'')))) (\<lambda>r.
       Inr (r, put_record data (KStr (str_key i)) r)))"

definition item_element :: "query \<Rightarrow> pyval \<Rightarrow> pykey \<Rightarrow> error + pyval \<times> pyval" where
  "item_element q data i =
     andthen (lookup_record data (KStr (str_key i))) (\<lambda>item.
     andthen (assign_all item (stamp_fields q (subscript data (KStr ''version'')))) (\<lambda>item'.
     andthen (normalize_item item') (\<lambda>r.
       Inr (r, put_record data (KStr (str_key i)) r))))"

definition summoner_spell_element :: "query \<Rightarrow> pyval \<Rightarrow> pykey \<Rightarrow> error + pyval \<times> pyval" where
  "summoner_spell_element q data i =
     andthen (lookup_record data i) (\<lambda>summoner_spell.
     andthen (assign_all summoner_spell (stamp_fields q (subscript data (KStr ''version'')))) (\<lambda>r.
       Inr (r, put_record data i r)))"

definition get_many ::
  "env \<Rightarrow> schema \<Rightarrow> (query \<Rightarrow> error + request) \<Rightarrow>
   (query \<Rightarrow> pyval \<Rightarrow> pykey \<Rightarrow> error + pyval \<times> pyval) \<Rightarrow> query \<Rightarrow> state \<Rightarrow>
   (error + generator) \<times> state" where
  "get_many env sch mk_request body query0 s =
     (case validate (pipeline env) sch query0 of
        Inl e \<Rightarrow> (Inl e, s)
      | Inr query \<Rightarrow>
          (case mk_request query of
             Inl e \<Rightarrow> (Inl e, s)
           | Inr req \<Rightarrow>
               (case fetch env req s of
                  (Inl e, s1) \<Rightarrow> (Inl e, s1)
                | (Inr data, s1) \<Rightarrow>
                    (Inr \<lparr>element = body, gquery = query, gdata = data, progress = Created\<rparr>,
                     s1))))"

definition many_champion_request :: "query \<Rightarrow> error + request" where
  "many_champion_request q =
     andthen (build_params (locale_tags q @ [(''dataById'', Inr (VBool True))]))
       (\<lambda>ps. make_request q ''champions'' None (add_version q ps) ''staticdata/champion'')"

definition many_request :: "string \<Rightarrow> string \<Rightarrow> query \<Rightarrow> error + request" where
  "many_request p b q = andthen (build_params (locale_tags q))
     (\<lambda>ps. make_request q p None (add_version q ps) b)"

definition get_many_champion :: "env \<Rightarrow> query \<Rightarrow> state \<Rightarrow> (error + generator) \<times> state" where
  "get_many_champion env = get_many env validate_get_many_champion_query
     many_champion_request champion_element"

definition get_many_mastery :: "env \<Rightarrow> query \<Rightarrow> state \<Rightarrow> (error + generator) \<times> state" where
  "get_many_mastery env = get_many env validate_get_many_mastery_query
     (many_request ''masteries'' ''staticdata/mastery'') mastery_element"

definition get_many_rune :: "env \<Rightarrow> query \<Rightarrow> state \<Rightarrow> (error + generator) \<times> state" where
  "get_many_rune env = get_many env validate_get_many_rune_query
     (many_request ''runes'' ''staticdata/rune'') rune_element"

definition get_many_item :: "env \<Rightarrow> query \<Rightarrow> state \<Rightarrow> (error + generator) \<times> state" where
  "get_many_item env = get_many env validate_get_many_item_query
     (many_request ''items'' ''staticdata/item'') item_element"

definition get_many_summoner_spell :: "env \<Rightarrow> query \<Rightarrow> state \<Rightarrow> (error + generator) \<times> state" where
  "get_many_summoner_spell env = get_many env validate_get_many_summoner_spell_query
     (many_request ''summoner-spells'' ''staticdata/summoner-spell'') summoner_spell_element"

text \<open>The ids a generator still has to go through.\<close>

definition pending :: "generator \<Rightarrow> error + pykey list" where
  "pending g =
     (case progress g of
        Created \<Rightarrow> andthen (q_get (gquery g) ''ids'') py_iter
      | Running ids \<Rightarrow> Inr ids
      | Finished \<Rightarrow> Inr [])"

text \<open>The first \<open>n\<close> pulls on the generator that a get-many operation has returned.\<close>

definition consume :: "nat \<Rightarrow> (error + generator) \<times> state \<Rightarrow> error + pull list" where
  "consume n res = (case fst res of Inl e \<Rightarrow> Inl e | Inr g \<Rightarrow> Inr (pulls n g))"

text \<open>What a pull gives when the body of the loop has run: a raise or a yield.\<close>

definition outcome :: "error + pyval \<Rightarrow> pull" where
  "outcome x = (case x of Inl e \<Rightarrow> Raise e | Inr r \<Rightarrow> Yield r)"

section \<open>Dispatch by type\<close>

text \<open>
  \<^verbatim>\<open>get\<close> and \<^verbatim>\<open>get_many\<close> are dispatched on the requested type (lines 37 to 43 and
  the \<^verbatim>\<open>register\<close> decorators). \<open>get_dto\<close> is the dispatch for the single records,
  \<open>get_list_dto\<close> for the list records, \<open>get_many_dto\<close> for the sequences of records.
\<close>

datatype dto_type = ChampionDto | MasteryDto | RuneDto | ItemDto | MapDto | SummonerSpellDto

fun get_dto :: "dto_type \<Rightarrow> env \<Rightarrow> query \<Rightarrow> state \<Rightarrow> (error + pyval) \<times> state" where
  "get_dto ChampionDto = get_champion"
| "get_dto MasteryDto = get_mastery"
| "get_dto RuneDto = get_rune"
| "get_dto ItemDto = get_item"
| "get_dto MapDto = get_map"
| "get_dto SummonerSpellDto = get_summoner_spell"

fun get_list_dto ::
  "list_type \<Rightarrow> env \<Rightarrow> query \<Rightarrow> state \<Rightarrow> (error + pyval list \<times> pyval) \<times> state" where
  "get_list_dto ChampionListDto = get_champion_list"
| "get_list_dto RuneListDto = get_rune_list"
| "get_list_dto MasteryListDto = get_mastery_list"
| "get_list_dto ItemListDto = get_item_list"
| "get_list_dto SummonerSpellListDto = get_summoner_spell_list"
| "get_list_dto MapListDto = get_map_list"

fun list_schema :: "list_type \<Rightarrow> schema" where
  "list_schema ChampionListDto = validate_get_champion_list_query"
| "list_schema RuneListDto = validate_get_rune_list_query"
| "list_schema MasteryListDto = validate_get_mastery_list_query"
| "list_schema ItemListDto = validate_get_item_list_query"
| "list_schema SummonerSpellListDto = validate_get_summoner_spell_list_query"
| "list_schema MapListDto = validate_get_map_list_query"


section \<open>Stamped records\<close>




text \<open>
  A record without the fields that the stamping writes, and a list record with these
  fields removed from every record of its \<^verbatim>\<open>data\<close>: two list records with the same
  \<open>unstamped_list\<close> differ at most in the stamped fields of their records.
\<close>

definition stamp_keys :: "pykey list" where
  "stamp_keys = [KStr ''region'', KStr ''version'', KStr ''locale'', KStr ''includedData'']"

definition unstamped :: "pyval \<Rightarrow> pyval" where
  "unstamped r =
     (case r of VDict kvs \<Rightarrow> VDict (filter (\<lambda>kv. fst kv \<notin> set stamp_keys) kvs) | _ \<Rightarrow> r)"

definition unstamped_list :: "pyval \<Rightarrow> pyval" where
  "unstamped_list lst =
     (case lst of
        VDict outer \<Rightarrow>
          (case map_of outer (KStr ''data'') of
             Some (VDict kvs) \<Rightarrow>
               VDict (AList.update (KStr ''data'')
                        (VDict (map (\<lambda>kv. (fst kv, unstamped (snd kv))) kvs)) outer)
           | _ \<Rightarrow> lst)
      | _ \<Rightarrow> lst)"

section \<open>Repaired item records\<close>

text \<open>
  An item record is repaired when its name is empty if its id is 3632 and when it has
  the fields tags, depth, colloq and plaintext. \<open>defaulted raw r k d\<close> says that the record
  \<open>r\<close> has at \<open>k\<close> the value of the raw record, or \<open>d\<close> when the raw record has
  no such field. The cache is in order for the items when every record of every cached
  item list is repaired.
\<close>

definition item_repaired :: "pyval \<Rightarrow> bool" where
  "item_repaired r =
     ((subscript r (KStr ''id'') = Inr (VInt 3632) \<longrightarrow>
         subscript r (KStr ''name'') = Inr (VStr '''')) \<and>
      (\<forall>k \<in> set [''tags'', ''depth'', ''colloq'', ''plaintext'']. lacks r k = Inr False))"

definition defaulted :: "pyval \<Rightarrow> pyval \<Rightarrow> string \<Rightarrow> pyval \<Rightarrow> bool" where
  "defaulted raw r k d =
     (subscript r (KStr k) = (case subscript raw (KStr k) of Inl e \<Rightarrow> Inr d | Inr v \<Rightarrow> Inr v))"

definition records_repaired :: "pyval \<Rightarrow> bool" where
  "records_repaired lst =
     (case data_values lst of Inl e \<Rightarrow> True
      | Inr kvs \<Rightarrow> (\<forall>kv \<in> set kvs. item_repaired (snd kv)))"

definition item_cache_ok :: "state \<Rightarrow> bool" where
  "item_cache_ok s = (\<forall>fp lst. cache s ItemListDto fp = Some lst \<longrightarrow> records_repaired lst)"

section \<open>Sample data\<close>

text \<open>
  A platform, a stable hash, payloads and an environment whose transport answers every
  request with a given payload: the concrete inputs on which the operations are run
  below.
\<close>

definition na :: platform where
  "na = \<lparr>pvalue = ''NA1'', region = ''NA'', default_locale = ''en_US''\<rparr>"

definition sample_hash :: "string list \<Rightarrow> int" where
  "sample_hash xs = int (length (remdups xs))"

definition sample_env :: "bool \<Rightarrow> pyval \<Rightarrow> env" where
  "sample_env by_id payload =
     \<lparr>request_by_id = by_id,
      pipeline = Some (\<lambda>p. Inr (VDict [(KStr ''v'', VStr ''7.1'')])),
      transport = (\<lambda>log req. Inr payload),
      hash_included_data = sample_hash\<rparr>"

definition champion_payload :: pyval where
  "champion_payload =
     VDict [(KStr ''data'',
             VDict [(KStr ''1'', VDict [(KStr ''id'', VInt 1), (KStr ''name'', VStr ''Annie'')])]),
            (KStr ''version'', VStr ''7.2'')]"

definition map_payload :: pyval where
  "map_payload =
     VDict [(KStr ''data'',
             VDict [(KStr ''11'', VDict [(KStr ''mapId'', VInt 11),
                                         (KStr ''name'', VStr ''SummonersRift'')])]),
            (KStr ''version'', VStr ''7.1'')]"

definition list_query1 :: query where
  "list_query1 = [(''platform'', VPlatform na), (''version'', VStr ''7.1'')]"




definition stamped_annie :: pyval where
  "stamped_annie =
     VDict [(KStr ''id'', VInt 1), (KStr ''name'', VStr ''Annie''),
            (KStr ''region'', VStr ''NA''), (KStr ''version'', VStr ''7.2''),
            (KStr ''locale'', VStr ''en_US''), (KStr ''includedData'', VSet [''all''])]"

definition sample_generator :: generator where
  "sample_generator =
     \<lparr>element = champion_element,
      gquery = [(''ids'', VList [KInt 1, KInt 999999, KInt 1]), (''platform'', VPlatform na),
                (''locale'', VStr ''en_US''), (''includedData'', VSet [''all''])],
      gdata = champion_payload, progress = Created\<rparr>"





definition many_query :: query where
  "many_query =
     [(''ids'', VList [KInt 1]), (''platform'', VPlatform na), (''version'', VStr ''7.1'')]"

definition map_list_query :: query where
  "map_list_query = [(''platform'', VPlatform na), (''version'', VStr ''7.1'')]"

definition map_get_query :: query where
  "map_get_query = [(''name'', VStr ''SummonersRift''), (''platform'', VPlatform na)]"

definition map_fingerprint :: "pyval list" where
  "map_fingerprint = [VInt 1, VStr ''en_US'', VPlatform na, VStr ''7.1'']"

definition stored_map_list :: pyval where
  "stored_map_list =
     VDict [(KStr ''data'',
             VDict [(KStr ''11'', VDict [(KStr ''mapId'', VInt 11),
                                         (KStr ''name'', VStr ''SummonersRift'')])]),
            (KStr ''version'', VStr ''7.1''), (KStr ''region'', VStr ''NA''),
            (KStr ''locale'', VStr ''en_US'')]"

definition mutated_map_list :: pyval where
  "mutated_map_list =
     VDict [(KStr ''data'',
             VDict [(KStr ''11'', VDict [(KStr ''mapId'', VInt 11),
                                         (KStr ''name'', VStr ''SummonersRift''),
                                         (KStr ''region'', VStr ''NA''),
                                         (KStr ''version'', VStr ''7.1''),
                                         (KStr ''locale'', VStr ''en_US'')])]),
            (KStr ''version'', VStr ''7.1''), (KStr ''region'', VStr ''NA''),
            (KStr ''locale'', VStr ''en_US'')]"

text \<open>The state after the map list has been fetched, and after a map has then been got by name.\<close>

definition state_after_list :: state where
  "state_after_list = snd (get_map_list (sample_env False map_payload) map_list_query init_state)"

definition state_after_get :: state where
  "state_after_get = snd (get_map (sample_env False map_payload) map_get_query state_after_list)"

definition item_payload :: pyval where
  "item_payload =
     VDict [(KStr ''id'', VInt 3632), (KStr ''name'', VStr ''Bogus''),
            (KStr ''tags'', VList [KStr ''Trinket''])]"

definition item_list_payload :: pyval where
  "item_list_payload =
     VDict [(KStr ''data'',
             VDict [(KStr ''3632'', VDict [(KStr ''id'', VInt 3632),
                                           (KStr ''name'', VStr ''Bogus'')])]),
            (KStr ''version'', VStr ''7.2'')]"

definition item_get_query :: query where
  "item_get_query = [(''id'', VInt 3632), (''platform'', VPlatform na)]"

definition item_many_query :: query where
  "item_many_query = [(''ids'', VList [KInt 3632]), (''platform'', VPlatform na)]"

definition repaired_item :: pyval where
  "repaired_item =
     VDict [(KStr ''id'', VInt 3632), (KStr ''name'', VStr ''''),
            (KStr ''tags'', VList [KStr ''Trinket'']), (KStr ''depth'', VInt 1),
            (KStr ''colloq'', VStr ''''), (KStr ''plaintext'', VStr '''')]"

definition direct_item :: pyval where
  "direct_item =
     VDict [(KStr ''id'', VInt 3632), (KStr ''name'', VStr ''''),
            (KStr ''tags'', VList [KStr ''Trinket'']),
            (KStr ''region'', VStr ''NA''), (KStr ''version'', VStr ''7.1''),
            (KStr ''locale'', VStr ''en_US''), (KStr ''includedData'', VSet [''all'']),
            (KStr ''depth'', VInt 1), (KStr ''colloq'', VStr ''''),
            (KStr ''plaintext'', VStr '''')]"

definition listed_item :: pyval where
  "listed_item =
     VDict [(KStr ''id'', VInt 3632), (KStr ''name'', VStr ''''),
            (KStr ''tags'', VList []), (KStr ''depth'', VInt 1),
            (KStr ''colloq'', VStr ''''), (KStr ''plaintext'', VStr ''''),
            (KStr ''region'', VStr ''NA''), (KStr ''version'', VStr ''7.1''),
            (KStr ''locale'', VStr ''en_US''), (KStr ''includedData'', VSet [''all''])]"

definition yielded_item :: pyval where
  "yielded_item =
     VDict [(KStr ''id'', VInt 3632), (KStr ''name'', VStr ''''),
            (KStr ''region'', VStr ''NA''), (KStr ''version'', VStr ''7.2''),
            (KStr ''locale'', VStr ''en_US''), (KStr ''includedData'', VSet [''all'']),
            (KStr ''tags'', VList []), (KStr ''depth'', VInt 1),
            (KStr ''colloq'', VStr ''''), (KStr ''plaintext'', VStr '''')]"

text \<open>The state after the item list has been fetched.\<close>

definition item_list_state :: state where
  "item_list_state =
     snd (get_list_dto ItemListDto (sample_env False item_list_payload) list_query1 init_state)"

text \<open>
  A payload whose record is stored under the integer 1 instead of the string, and a
  generator of summoner spells over it.
\<close>

definition int_keyed_payload :: pyval where
  "int_keyed_payload =
     VDict [(KStr ''data'',
             VDict [(KInt 1, VDict [(KStr ''id'', VInt 1), (KStr ''name'', VStr ''Annie'')])]),
            (KStr ''version'', VStr ''7.2'')]"

definition int_keyed_generator :: generator where
  "int_keyed_generator =
     \<lparr>element = summoner_spell_element,
      gquery = [(''ids'', VList [KInt 1]), (''platform'', VPlatform na),
                (''locale'', VStr ''en_US''), (''includedData'', VSet [''all''])],
      gdata = int_keyed_payload, progress = Running [KInt 1]\<rparr>"

text \<open>The generator that \<^verbatim>\<open>get_many_summoner_spell\<close> returns on the sample payload.\<close>

definition spell_generator :: generator where
  "spell_generator =
     projr (fst (get_many_summoner_spell (sample_env False champion_payload) many_query
                   init_state))"

section \<open>The fingerprint is independent of the order of keys and sets\<close>

lemma sorted_keys_canonical:
  assumes "distinct (map fst q)"
  shows "map fst (sort_key fst q) = sorted_list_of_set (fst ` set q)"
proof -
  have "sorted (map fst (sort_key fst q))" by simp
  moreover have "distinct (map fst (sort_key fst q))" using assms by (simp add: distinct_map)
  moreover have "set (map fst (sort_key fst q)) = fst ` set q" by simp
  ultimately show ?thesis
    by (metis List.finite_set sorted_list_of_set.idem_if_sorted_distinct set_map)
qed

lemma sorted_values_lookup:
  assumes "distinct (map fst q)"
  shows "map snd (sort_key fst q) = map (\<lambda>k. the (map_of q k)) (map fst (sort_key fst q))"
proof -
  have "\<forall>p \<in> set (sort_key fst q). snd p = the (map_of q (fst p))"
    using assms by auto
  then show ?thesis by (simp add: comp_def)
qed

lemma calculate_hash_canonical:
  assumes "distinct (map fst q)"
  shows "calculate_hash h q =
         map (\<lambda>k. hash_value h (the (map_of q k))) (sorted_list_of_set (fst ` set q))"
  unfolding calculate_hash_def sorted_values_lookup [OF assms] sorted_keys_canonical [OF assms]
  by (simp add: comp_def)

lemma hash_value_same:
  assumes "stable_hash h" and "same_value v w"
  shows "hash_value h v = hash_value h w"
proof (cases "\<exists>xs ys. v = VSet xs \<and> w = VSet ys")
  case True
  then obtain xs ys where vw: "v = VSet xs" "w = VSet ys" by blast
  with assms(2) have "set xs = set ys" by (simp add: same_value_def)
  with assms(1) have "h xs = h ys" unfolding stable_hash_def by blast
  with vw show ?thesis by (simp add: hash_value_def)
next
  case False
  with assms(2) have "v = w" by (cases v; cases w) (simp_all add: same_value_def)
  then show ?thesis by simp
qed

lemma stable_sample_hash: "stable_hash sample_hash"
  by (simp add: stable_hash_def sample_hash_def length_remdups_card_conv)

text \<open>
  C3. The fingerprint of a query is the tuple of its values in the sorted order of
  its keys, in which every set-valued value is replaced by its hash and every other
  value stands as it is. So two queries with the same key/value pairs, which differ
  only in the insertion order of the keys and in the iteration order of their
  set-valued values, have the same fingerprint, provided the hash of a set is stable;
  with both queries the same, this is the determinism of the fingerprint.
\<close>

theorem calculate_hash_order_invariant:
  assumes "stable_hash h" and "same_query q1 q2"
  shows "calculate_hash h q1 = calculate_hash h q2 \<and>
         calculate_hash h q1 =
           map (\<lambda>k. case the (map_of q1 k) of VSet xs \<Rightarrow> VInt (h xs)
                  | _ \<Rightarrow> the (map_of q1 k))
             (sorted_list_of_set (fst ` set q1))"
proof -
  from assms(2) have d1: "distinct (map fst q1)" and d2: "distinct (map fst q2)"
    and keys: "fst ` set q1 = fst ` set q2"
    and vals: "\<forall>k \<in> fst ` set q1. same_value (the (map_of q1 k)) (the (map_of q2 k))"
    unfolding same_query_def by blast+
  have "map (\<lambda>k. hash_value h (the (map_of q1 k))) (sorted_list_of_set (fst ` set q1)) =
        map (\<lambda>k. hash_value h (the (map_of q2 k))) (sorted_list_of_set (fst ` set q1))"
    using vals assms(1) by (intro map_cong) (auto intro: hash_value_same)
  then have "calculate_hash h q1 = calculate_hash h q2"
    by (simp add: calculate_hash_canonical [OF d1] calculate_hash_canonical [OF d2] keys)
  moreover have "calculate_hash h q1 =
      map (\<lambda>k. case the (map_of q1 k) of VSet xs \<Rightarrow> VInt (h xs)
                  | _ \<Rightarrow> the (map_of q1 k))
        (sorted_list_of_set (fst ` set q1))"
    by (simp add: calculate_hash_canonical [OF d1] hash_value_def)
  ultimately show ?thesis by simp
qed

lemma sample_queries_same:
  "same_query
     [(''platform'', VPlatform na), (''locale'', VStr ''en_US''),
      (''includedData'', VSet [''all'', ''image''])]
     [(''includedData'', VSet [''image'', ''all'']), (''locale'', VStr ''en_US''),
      (''platform'', VPlatform na)]"
  by code_simp

theorem calculate_hash_order_invariant_witness:
  "stable_hash sample_hash \<and>
   same_query
     [(''platform'', VPlatform na), (''locale'', VStr ''en_US''),
      (''includedData'', VSet [''all'', ''image''])]
     [(''includedData'', VSet [''image'', ''all'']), (''locale'', VStr ''en_US''),
      (''platform'', VPlatform na)] \<and>
   calculate_hash sample_hash
     [(''platform'', VPlatform na), (''locale'', VStr ''en_US''),
      (''includedData'', VSet [''all'', ''image''])] =
   calculate_hash sample_hash
     [(''includedData'', VSet [''image'', ''all'']), (''locale'', VStr ''en_US''),
      (''platform'', VPlatform na)] \<and>
   calculate_hash sample_hash
     [(''platform'', VPlatform na), (''locale'', VStr ''en_US''),
      (''includedData'', VSet [''all'', ''image''])] =
     [VInt (sample_hash [''all'', ''image'']), VStr ''en_US'', VPlatform na]"
proof -
  have "map (\<lambda>k. case the (map_of [(''platform'', VPlatform na), (''locale'', VStr ''en_US''),
                   (''includedData'', VSet [''all'', ''image''])] k) of
                 VSet xs \<Rightarrow> VInt (sample_hash xs)
               | _ \<Rightarrow> the (map_of [(''platform'', VPlatform na), (''locale'', VStr ''en_US''),
                   (''includedData'', VSet [''all'', ''image''])] k))
          (sorted_list_of_set (fst ` set [(''platform'', VPlatform na),
             (''locale'', VStr ''en_US''), (''includedData'', VSet [''all'', ''image''])])) =
        [VInt (sample_hash [''all'', ''image'']), VStr ''en_US'', VPlatform na]"
    by code_simp
  note ev = this
  note t = calculate_hash_order_invariant [OF stable_sample_hash sample_queries_same]
  have e1: "calculate_hash sample_hash
     [(''platform'', VPlatform na), (''locale'', VStr ''en_US''),
      (''includedData'', VSet [''all'', ''image''])] =
   calculate_hash sample_hash
     [(''includedData'', VSet [''image'', ''all'']), (''locale'', VStr ''en_US''),
      (''platform'', VPlatform na)]"
    using t by (rule conjunct1)
  have e2: "calculate_hash sample_hash
     [(''platform'', VPlatform na), (''locale'', VStr ''en_US''),
      (''includedData'', VSet [''all'', ''image''])] =
     [VInt (sample_hash [''all'', ''image'']), VStr ''en_US'', VPlatform na]"
    using conjunct2 [OF t] ev by (rule trans)
  show ?thesis
    using stable_sample_hash sample_queries_same e1 e2 by (intro conjI)
qed

section \<open>Validation of the identity keys\<close>

lemma andthen_simps [simp]:
  "andthen (Inl e) f = Inl e" "andthen (Inr x) f = f x"
  by (simp_all add: andthen_def)

lemma identity_conflict_invalid:
  assumes "q_has q ''id'' = q_has q ''name''"
  shows "validate ctx (HasOr ''id'' TInt ''name'' TStr # rest) q = Inl InvalidQuery"
  using assms by (auto simp: q_has_def split: option.splits)

text \<open>
  C8. A single-entity get of any of the six types, on a query that holds both an id and
  a name, or neither of them, fails with \<open>InvalidQuery\<close> and leaves the state as it was:
  nothing has been handed to the transport and the cache is untouched. The result does
  not depend on the environment, so neither the transport nor the pipeline is consulted.
\<close>

theorem get_rejects_both_or_neither:
  assumes "q_has q ''id'' = q_has q ''name''"
  shows "get_dto t env q s = (Inl InvalidQuery, s)"
proof (cases t)
  case ChampionDto
  then show ?thesis
    by (simp add: get_champion_def validate_get_champion_query_def
        identity_conflict_invalid [OF assms] del: validate.simps)
next
  case MasteryDto
  then show ?thesis
    by (simp add: get_mastery_def validate_get_mastery_query_def
        identity_conflict_invalid [OF assms] del: validate.simps)
next
  case RuneDto
  then show ?thesis
    by (simp add: get_rune_def validate_get_rune_query_def
        identity_conflict_invalid [OF assms] del: validate.simps)
next
  case ItemDto
  then show ?thesis
    by (simp add: get_item_def validate_get_item_query_def
        identity_conflict_invalid [OF assms] del: validate.simps)
next
  case MapDto
  then show ?thesis
    by (simp add: get_map_def validate_get_map_query_def
        identity_conflict_invalid [OF assms] del: validate.simps)
next
  case SummonerSpellDto
  then show ?thesis
    by (simp add: get_summoner_spell_def validate_get_summoner_spell_query_def
        identity_conflict_invalid [OF assms] del: validate.simps)
qed

theorem get_rejects_both_or_neither_witness:
  "q_has [(''id'', VInt 17), (''name'', VStr ''Teemo''), (''platform'', VPlatform na)] ''id'' =
   q_has [(''id'', VInt 17), (''name'', VStr ''Teemo''), (''platform'', VPlatform na)] ''name'' \<and>
   get_dto ChampionDto (sample_env False champion_payload)
     [(''id'', VInt 17), (''name'', VStr ''Teemo''), (''platform'', VPlatform na)] init_state =
     (Inl InvalidQuery, init_state) \<and>
   q_has [(''platform'', VPlatform na)] ''id'' = q_has [(''platform'', VPlatform na)] ''name'' \<and>
   get_dto MapDto (sample_env True map_payload) [(''platform'', VPlatform na)] init_state =
     (Inl InvalidQuery, init_state)"
proof -
  have a: "q_has [(''id'', VInt 17), (''name'', VStr ''Teemo''), (''platform'', VPlatform na)] ''id'' =
     q_has [(''id'', VInt 17), (''name'', VStr ''Teemo''), (''platform'', VPlatform na)] ''name''"
    by (simp add: q_has_def)
  have b: "q_has [(''platform'', VPlatform na)] ''id'' = q_has [(''platform'', VPlatform na)] ''name''"
    by (simp add: q_has_def)
  show ?thesis
    using get_rejects_both_or_neither [OF a] get_rejects_both_or_neither [OF b] a b by blast
qed

section \<open>The map operation without a direct fetch\<close>

lemma get_map_no_direct_fetch:
  assumes "\<not> request_by_id env"
    and "validate (pipeline env) validate_get_map_query q = Inr q'"
    and "\<not> q_has q' ''name''"
  shows "get_map env q s = (Inr VNone, s)"
  using assms by (simp add: get_map_def)

text \<open>
  C5. With the flag off, \<^verbatim>\<open>get_map\<close> on a query with an id and no name passes the
  validation and then returns \<^verbatim>\<open>None\<close>: whatever the transport would answer, nothing
  is fetched and the state is unchanged.
\<close>

theorem get_map_by_id_returns_None:
  "get_map (sample_env False payload) [(''id'', VInt 11), (''platform'', VPlatform na)] s
     = (Inr VNone, s)"
  by (simp add: get_map_def validate_get_map_query_def sample_env_def q_has_def q_set_def
      get_default_version_def get_default_locale_def q_get_def)

section \<open>A list query without a version\<close>

text \<open>
  C6. The query \<^verbatim>\<open>{platform, locale}\<close> passes the validation of the champion list, and
  the fetch succeeds; the stamping of the first record then reads \<^verbatim>\<open>query["version"]\<close>
  and raises a KeyError. The rune list does the same. The mastery list, which stamps
  the version of the payload, returns its record.
\<close>

theorem list_without_version_raises_KeyError:
  "validate None validate_get_champion_list_query
     [(''platform'', VPlatform na), (''locale'', VStr ''en_US'')] =
     Inr [(''platform'', VPlatform na), (''locale'', VStr ''en_US''),
          (''includedData'', VSet [''all'']), (''dataById'', VBool False)] \<and>
   fst (get_champion_list (sample_env False champion_payload)
          [(''platform'', VPlatform na), (''locale'', VStr ''en_US'')] init_state) = Inl KeyError \<and>
   fst (get_rune_list (sample_env False champion_payload)
          [(''platform'', VPlatform na), (''locale'', VStr ''en_US'')] init_state) = Inl KeyError \<and>
   fst (get_mastery_list (sample_env False champion_payload)
          [(''platform'', VPlatform na), (''locale'', VStr ''en_US'')] init_state) \<noteq> Inl KeyError"
  by code_simp

section \<open>The list cache\<close>

lemma fetch_calls:
  "fetch env req s = (r, s1) \<Longrightarrow> calls s1 = calls s @ [req] \<and> cache s1 = cache s"
  by (auto simp: fetch_def Let_def split: sum.splits)



lemma get_list_dto_frame:
  "get_list_dto t env = get_list env (list_schema t) t
     (case t of ChampionListDto \<Rightarrow> champion_list_request | RuneListDto \<Rightarrow> rune_list_request
      | MasteryListDto \<Rightarrow> mastery_list_request | ItemListDto \<Rightarrow> item_list_request
      | SummonerSpellListDto \<Rightarrow> summoner_spell_list_request | MapListDto \<Rightarrow> map_list_request)
     (case t of ChampionListDto \<Rightarrow> stamp_champion_list | RuneListDto \<Rightarrow> stamp_rune_list
      | MasteryListDto \<Rightarrow> stamp_mastery_list | ItemListDto \<Rightarrow> stamp_item_list
      | SummonerSpellListDto \<Rightarrow> stamp_summoner_spell_list | MapListDto \<Rightarrow> stamp_map_list)"
  by (cases t) (simp_all add: get_champion_list_def get_rune_list_def get_mastery_list_def
      get_item_list_def get_summoner_spell_list_def get_map_list_def)



section \<open>A missing id in a get-many sequence\<close>

lemma gen_next_pending:
  assumes "progress g \<noteq> Finished" and "pending g = Inr ids"
  shows "gen_next g = step_ids g ids"
  using assms by (cases "progress g") (simp_all add: gen_next_def pending_def)

lemma pulls_finished: "progress g = Finished \<Longrightarrow> pulls n g = replicate n StopIteration"
  by (induction n) (simp_all add: gen_next_def)

lemma lookup_put_other:
  assumes "lookup_record data k = Inr x" and "lookup_record data k' = Inl NotFoundError"
  shows "lookup_record (put_record data k r) k' = Inl NotFoundError"
proof -
  from assms(1) obtain outer where data: "data = VDict outer"
    by (cases data) (simp_all add: lookup_record_def)
  from assms(1) data obtain d where d: "map_of outer (KStr ''data'') = Some d"
    by (cases "map_of outer (KStr ''data'')") (simp_all add: lookup_record_def)
  from assms(1) data d obtain kvs where kvs: "d = VDict kvs"
    by (cases d) (simp_all add: lookup_record_def)
  from assms(1) data d kvs have k: "map_of kvs k = Some x"
    by (simp add: lookup_record_def split: option.splits)
  from assms(2) data d kvs have k': "map_of kvs k' = None"
    by (simp add: lookup_record_def split: option.splits)
  from k k' have "k \<noteq> k'" by auto
  with data d kvs k' show ?thesis
    by (simp add: lookup_record_def put_record_def update_conv')
qed

lemma str_keyed_fail:
  assumes "el \<in> {champion_element, mastery_element, rune_element, item_element}"
    and "lookup_record data (KStr (str_key i)) = Inl NotFoundError"
  shows "el q data i = Inl NotFoundError"
  using assms
  by (auto simp: champion_element_def mastery_element_def rune_element_def item_element_def)

lemma str_keyed_ok:
  assumes "el \<in> {champion_element, mastery_element, rune_element, item_element}"
    and "el q data i = Inr (r, data')"
  shows "\<exists>x. lookup_record data (KStr (str_key i)) = Inr x \<and>
             data' = put_record data (KStr (str_key i)) r"
  using assms
  by (auto simp: champion_element_def mastery_element_def rune_element_def item_element_def
      andthen_def split: sum.splits)

text \<open>
  C2 (amended). In the sequence of a get-many operation for champions, masteries, runes
  or items, when the ids before a missing id have all been yielded, the pull for the
  missing id raises \<open>NotFoundError\<close>, and the sequence is then exhausted: every
  later pull is \<open>StopIteration\<close>, so no id after the missing one is yielded.
\<close>

theorem missing_id_ends_sequence:
  assumes "element g \<in> {champion_element, mastery_element, rune_element, item_element}"
    and "progress g \<noteq> Finished"
    and "pending g = Inr (pre @ m # post)"
    and "pulls (length pre) g = map Yield rs"
    and "lookup_record (gdata g) (KStr (str_key m)) = Inl NotFoundError"
  shows "pulls (length pre + Suc n) g =
         map Yield rs @ Raise NotFoundError # replicate n StopIteration"
  using assms
proof (induction pre arbitrary: g rs)
  case Nil
  from Nil.prems(2,3) have "gen_next g = step_ids g (m # post)"
    by (simp add: gen_next_pending)
  moreover have "element g (gquery g) (gdata g) m = Inl NotFoundError"
    using Nil.prems(1,5) by (rule str_keyed_fail)
  ultimately have "gen_next g = (Raise NotFoundError, g\<lparr>progress := Finished\<rparr>)"
    by simp
  moreover from Nil.prems(4) have "rs = []" by simp
  ultimately show ?case by (simp add: pulls_finished)
next
  case (Cons p pre)
  from Cons.prems(2,3) have step: "gen_next g = step_ids g (p # pre @ m # post)"
    by (simp add: gen_next_pending)
  from Cons.prems(4) obtain r rs' where rs: "rs = r # rs'"
    by (cases rs) (auto split: prod.splits)
  obtain data' where el: "element g (gquery g) (gdata g) p = Inr (r, data')"
    using Cons.prems(4) step rs
    by (cases "element g (gquery g) (gdata g) p") (auto split: prod.splits)
  define g' where "g' = g\<lparr>gdata := data', progress := Running (pre @ m # post)\<rparr>"
  from step el have next_g: "gen_next g = (Yield r, g')" by (simp add: g'_def)
  with Cons.prems(4) rs have tail: "pulls (length pre) g' = map Yield rs'" by simp
  from str_keyed_ok [OF Cons.prems(1) el] obtain x
    where "lookup_record (gdata g) (KStr (str_key p)) = Inr x"
      and "data' = put_record (gdata g) (KStr (str_key p)) r" by blast
  with Cons.prems(5) have "lookup_record (gdata g') (KStr (str_key m)) = Inl NotFoundError"
    by (simp add: g'_def lookup_put_other)
  moreover have "element g' = element g" "progress g' \<noteq> Finished"
    "pending g' = Inr (pre @ m # post)"
    by (simp_all add: g'_def pending_def)
  ultimately have "pulls (length pre + Suc n) g' =
      map Yield rs' @ Raise NotFoundError # replicate n StopIteration"
    using Cons.IH [of g' rs'] Cons.prems(1) tail by simp
  with next_g rs show ?case by simp
qed

theorem missing_id_ends_sequence_witness:
  "pending sample_generator = Inr ([KInt 1] @ KInt 999999 # [KInt 1]) \<and>
   pulls 1 sample_generator = [Yield stamped_annie] \<and>
   lookup_record (gdata sample_generator) (KStr (str_key (KInt 999999))) = Inl NotFoundError \<and>
   pulls 4 sample_generator =
     [Yield stamped_annie, Raise NotFoundError, StopIteration, StopIteration]"
proof -
  have a: "element sample_generator \<in>
      {champion_element, mastery_element, rune_element, item_element}"
    by (simp add: sample_generator_def)
  have b: "progress sample_generator \<noteq> Finished"
    by (simp add: sample_generator_def)
  have c: "pending sample_generator = Inr ([KInt 1] @ KInt 999999 # [KInt 1])"
    by (simp add: sample_generator_def pending_def q_get_def)
  have d: "pulls (length [KInt 1]) sample_generator = map Yield [stamped_annie]"
    by code_simp
  have e: "lookup_record (gdata sample_generator) (KStr (str_key (KInt 999999))) =
      Inl NotFoundError"
    by code_simp
  have "pulls (length [KInt 1] + Suc 2) sample_generator =
      map Yield [stamped_annie] @ Raise NotFoundError # replicate 2 StopIteration"
    using a b c d e by (rule missing_id_ends_sequence)
  then have "pulls 4 sample_generator =
      [Yield stamped_annie, Raise NotFoundError, StopIteration, StopIteration]"
    by (simp add: numeral_eq_Suc)
  with c d e show ?thesis by simp
qed

text \<open>
  C2 as stated fails: with the ids 999999 and 1, of which only 1 is in the payload, the
  first pull raises \<open>NotFoundError\<close> and the following pulls find the sequence
  exhausted; the champion with id 1 is never yielded.
\<close>

theorem later_ids_not_yielded_counterexample:
  "lookup_record champion_payload (KStr (str_key (KInt 1))) =
     Inr (VDict [(KStr ''id'', VInt 1), (KStr ''name'', VStr ''Annie'')]) \<and>
   consume 3 (get_many_champion (sample_env False champion_payload)
                [(''ids'', VList [KInt 999999, KInt 1]), (''platform'', VPlatform na)]
                init_state) =
     Inr [Raise NotFoundError, StopIteration, StopIteration]"
  by code_simp

section \<open>What the stamping establishes\<close>


lemma set_item_same:
  "set_item a k v = Inr b \<Longrightarrow> subscript b (KStr k) = Inr v"
  by (cases a) (auto simp: update_conv')











section \<open>The context fields of the records\<close>

lemma step_ids_frame:
  assumes "step_ids g ids = (x, g')"
  shows "element g' = element g \<and> gquery g' = gquery g"
  using assms by (cases ids) (auto split: sum.splits prod.splits)

lemma gen_next_frame:
  assumes "gen_next g = (x, g')"
  shows "element g' = element g \<and> gquery g' = gquery g"
  using assms
  by (cases "progress g")
     (auto simp: gen_next_def dest: step_ids_frame split: sum.splits)

lemma step_ids_yield:
  assumes "step_ids g ids = (x, g')"
  shows "gdata g' = gdata g \<and> (\<forall>r. x \<noteq> Yield r) \<or>
         (\<exists>i r. element g (gquery g) (gdata g) i = Inr (r, gdata g') \<and> x = Yield r)"
  using assms by (cases ids) (auto split: sum.splits prod.splits)

lemma gen_next_yield:
  assumes "gen_next g = (x, g')"
  shows "gdata g' = gdata g \<and> (\<forall>r. x \<noteq> Yield r) \<or>
         (\<exists>i r. element g (gquery g) (gdata g) i = Inr (r, gdata g') \<and> x = Yield r)"
  using assms
  by (cases "progress g")
     (auto simp: gen_next_def dest: step_ids_yield split: sum.splits)


lemma get_many_generator:
  assumes "get_many env sch mk body q s = (Inr g, s')"
  shows "\<exists>query. validate (pipeline env) sch q = Inr query \<and> gquery g = query \<and>
           element g = body \<and> progress g = Created"
  using assms
  by (auto simp: get_many_def split: sum.splits prod.splits)








lemma map_values_result:
  assumes "map_values f kvs = Inr kvs'" and "(k, r) \<in> set kvs'"
  shows "\<exists>v. (k, v) \<in> set kvs \<and> f v = Inr r"
  using assms
proof (induction kvs arbitrary: kvs')
  case Nil
  then show ?case by simp
next
  case (Cons a kvs)
  obtain k0 v0 where a: "a = (k0, v0)" by (cases a)
  from Cons.prems(1) a obtain v' r' where
    "f v0 = Inr v'" "map_values f kvs = Inr r'" "kvs' = (k0, v') # r'"
    by (auto simp: andthen_def split: sum.splits)
  with Cons.IH [of r'] Cons.prems(2) a show ?case by auto
qed

lemma data_values_set_item:
  "set_item data ''data'' (VDict kvs) = Inr result \<Longrightarrow> data_values result = Inr kvs"
  by (simp add: data_values_def set_item_same)

lemma for_each_value_result:
  assumes "for_each_value data body = Inr result"
    and "data_values result = Inr kvs" and "(k, r) \<in> set kvs"
  shows "\<exists>v. body v = Inr r"
proof -
  from assms(1) obtain kvs0 kvs' where "data_values data = Inr kvs0"
    "map_values body kvs0 = Inr kvs'" "set_item data ''data'' (VDict kvs') = Inr result"
    by (auto simp: for_each_value_def andthen_def split: sum.splits)
  moreover from this(3) assms(2) have "kvs = kvs'"
    by (simp add: data_values_set_item)
  ultimately show ?thesis using assms(3) by (blast dest: map_values_result)
qed













section \<open>What the operations do to the cache\<close>

lemma filter_update_dropped:
  "\<not> P (k, v) \<Longrightarrow> (\<And>w. \<not> P (k, w)) \<Longrightarrow> filter P (AList.update k v kvs) = filter P kvs"
  by (induction kvs) auto

lemma set_item_unstamped:
  assumes "set_item a k v = Inr b" and "KStr k \<in> set stamp_keys"
  shows "unstamped b = unstamped a"
  using assms by (cases a) (auto simp: unstamped_def intro!: filter_update_dropped)

lemma assign_partial_unstamped:
  assumes "assign_partial d as = (err, r)" and "\<forall>k \<in> fst ` set as. KStr k \<in> set stamp_keys"
  shows "unstamped r = unstamped d"
  using assms
proof (induction as arbitrary: d)
  case Nil
  then show ?case by simp
next
  case (Cons a as)
  obtain k rhs where a: "a = (k, rhs)" by (cases a)
  show ?case
  proof (cases rhs)
    case (Inl e)
    with Cons.prems a show ?thesis by simp
  next
    case (Inr v)
    show ?thesis
    proof (cases "set_item d k v")
      case (Inl e)
      with Cons.prems a Inr show ?thesis by simp
    next
      case (Inr d')
      with Cons.prems a \<open>rhs = Inr v\<close> have "assign_partial d' as = (err, r)" by simp
      moreover from Cons.prems(2) have "\<forall>k \<in> fst ` set as. KStr k \<in> set stamp_keys" by simp
      ultimately have "unstamped r = unstamped d'" by (rule Cons.IH)
      moreover from Cons.prems(2) a have "KStr k \<in> set stamp_keys" by simp
      with Inr have "unstamped d' = unstamped d" by (rule set_item_unstamped)
      ultimately show ?thesis by simp
    qed
  qed
qed

lemma find_matching_attribute_position:
  assumes "find_matching_attribute kvs a v = Inr (Some (n, dto))"
  shows "n < length kvs \<and> snd (kvs ! n) = dto"
  using assms
proof (induction kvs arbitrary: n)
  case Nil
  then show ?case by simp
next
  case (Cons kv kvs)
  obtain k d where kv: "kv = (k, d)" by (cases kv)
  from Cons.prems kv obtain fields where d: "d = VDict fields"
    by (cases d) simp_all
  show ?case
  proof (cases "py_eq (case map_of fields (KStr a) of None \<Rightarrow> VNone | Some x \<Rightarrow> x) v")
    case True
    with Cons.prems kv d show ?thesis by simp
  next
    case False
    with Cons.prems kv d obtain m where
      "find_matching_attribute kvs a v = Inr (Some (m, dto))" "n = Suc m"
      by (cases "find_matching_attribute kvs a v")
         (auto simp: map_option_case split: option.splits)
    with Cons.IH [of m] show ?thesis by simp
  qed
qed

lemma put_record_at_unstamped:
  assumes "data_values lst = Inr kvs" and "n < length kvs"
    and "unstamped r = unstamped (snd (kvs ! n))"
  shows "unstamped_list (put_record_at lst n r) = unstamped_list lst"
proof -
  from assms(1) obtain outer where lst: "lst = VDict outer"
    and d: "map_of outer (KStr ''data'') = Some (VDict kvs)"
    by (cases lst)
       (auto simp: data_values_def andthen_def split: option.splits pyval.splits sum.splits)
  have "map (\<lambda>kv. (fst kv, unstamped (snd kv))) (kvs[n := (fst (kvs ! n), r)]) =
        map (\<lambda>kv. (fst kv, unstamped (snd kv))) kvs"
    using assms(2,3) by (simp add: map_update list_update_same_conv)
  with lst d assms(2) show ?thesis
    by (simp add: unstamped_list_def put_record_at_def update_conv' update_last)
qed


lemma stamp_fields_keys:
  "\<forall>k \<in> fst ` set (stamp_fields q v). KStr k \<in> set stamp_keys"
  "\<forall>k \<in> fst ` set (stamp_fields_map q). KStr k \<in> set stamp_keys"
  by (simp_all add: stamp_fields_def stamp_fields_map_def stamp_keys_def)

lemma find_in_list_steps:
  assumes "find_in_list t stamps query (fp0, l) s = (res, s')"
  shows "(s' = s \<and> (\<exists>e. res = Inl e)) \<or>
         (\<exists>kvs a v n dto err dto'. data_values l = Inr kvs \<and>
            find_matching_attribute kvs a v = Inr (Some (n, dto)) \<and>
            assign_partial dto stamps = (err, dto') \<and>
            res = (case err of None \<Rightarrow> Inr dto' | Some e \<Rightarrow> Inl e) \<and>
            s' = s\<lparr>cache := (cache s)(t := (cache s t)(fp0 \<mapsto> put_record_at l n dto'))\<rparr>)"
proof (cases "if q_has query ''id'' then Inr ''id''
              else if q_has query ''name'' then Inr ''name'' else Inl ValueError")
  case (Inl e)
  with assms have "s' = s" "res = Inl e" by (simp_all add: find_in_list_def)
  then show ?thesis by blast
next
  case (Inr a)
  show ?thesis
  proof (cases "data_values l")
    case (Inl e)
    with assms Inr have "s' = s" "res = Inl e" by (simp_all add: find_in_list_def)
    then show ?thesis by blast
  next
    case kvs: (Inr kvs)
    show ?thesis
    proof (cases "q_get query a")
      case (Inl e)
      with assms Inr kvs have "s' = s" "res = Inl e" by (simp_all add: find_in_list_def)
      then show ?thesis by blast
    next
      case v: (Inr v)
      show ?thesis
      proof (cases "find_matching_attribute kvs a v")
        case (Inl e)
        with assms Inr kvs v have "s' = s" "res = Inl e"
          by (simp_all add: find_in_list_def)
        then show ?thesis by blast
      next
        case found: (Inr found)
        show ?thesis
        proof (cases found)
          case None
          with assms Inr kvs v found have "s' = s" "res = Inl NotFoundError"
            by (simp_all add: find_in_list_def)
          then show ?thesis by blast
        next
          case (Some nd)
          obtain n dto where nd: "nd = (n, dto)" by (cases nd)
          obtain err dto' where ap: "assign_partial dto stamps = (err, dto')"
            by (cases "assign_partial dto stamps")
          from assms Inr kvs v found Some nd ap
          have "s' = s\<lparr>cache := (cache s)(t := (cache s t)(fp0 \<mapsto> put_record_at l n dto'))\<rparr>"
            and "res = (case err of None \<Rightarrow> Inr dto' | Some e \<Rightarrow> Inl e)"
            by (auto simp: find_in_list_def Let_def split: option.splits)
          with kvs found Some nd ap show ?thesis by blast
        qed
      qed
    qed
  qed
qed

lemma find_in_list_cache:
  assumes "find_in_list t stamps query (fp0, l) s = (res, s')"
    and "\<forall>k \<in> fst ` set stamps. KStr k \<in> set stamp_keys"
    and "cache s t fp0 = Some l"
    and "cache s t' fp = Some lst"
  shows "\<exists>lst'. cache s' t' fp = Some lst' \<and> unstamped_list lst' = unstamped_list lst"
  using find_in_list_steps [OF assms(1)]
proof
  assume "s' = s \<and> (\<exists>e. res = Inl e)"
  with assms(4) show ?thesis by simp
next
  assume "\<exists>kvs a v n dto err dto'. data_values l = Inr kvs \<and>
            find_matching_attribute kvs a v = Inr (Some (n, dto)) \<and>
            assign_partial dto stamps = (err, dto') \<and>
            res = (case err of None \<Rightarrow> Inr dto' | Some e \<Rightarrow> Inl e) \<and>
            s' = s\<lparr>cache := (cache s)(t := (cache s t)(fp0 \<mapsto> put_record_at l n dto'))\<rparr>"
  then obtain kvs a v n dto err dto' where kvs: "data_values l = Inr kvs"
    and found: "find_matching_attribute kvs a v = Inr (Some (n, dto))"
    and ap: "assign_partial dto stamps = (err, dto')"
    and s': "s' = s\<lparr>cache := (cache s)(t := (cache s t)(fp0 \<mapsto> put_record_at l n dto'))\<rparr>"
    by blast
  from find_matching_attribute_position [OF found]
  have n: "n < length kvs" "snd (kvs ! n) = dto" by simp_all
  from assign_partial_unstamped [OF ap assms(2)] n
  have "unstamped dto' = unstamped (snd (kvs ! n))" by simp
  with kvs n have same: "unstamped_list (put_record_at l n dto') = unstamped_list l"
    by (simp add: put_record_at_unstamped)
  show ?thesis
  proof (cases "t' = t \<and> fp = fp0")
    case True
    with assms(3,4) s' same show ?thesis by simp
  next
    case False
    with assms(4) s' show ?thesis by auto
  qed
qed

lemma get_list_cache:
  assumes "get_list env sch t mk st q s = (res, s1)" and "cache s t' fp = Some lst"
  shows "cache s1 t' fp = Some lst"
  using assms
  by (auto simp: get_list_def Let_def split: sum.splits option.splits prod.splits
      dest!: fetch_calls)

lemma get_list_bound:
  assumes "get_list env sch t mk st q s = (Inr (fp0, l), s1)"
  shows "cache s1 t fp0 = Some l"
  using assms
  by (auto simp: get_list_def Let_def split: sum.splits option.splits prod.splits)

lemma get_direct_cache:
  "get_direct env query p b repair s = (res, s') \<Longrightarrow> cache s' = cache s"
  by (auto simp: get_direct_def split: sum.splits prod.splits dest!: fetch_calls)

lemma get_many_cache:
  "get_many env sch mk body q s = (res, s') \<Longrightarrow> cache s' = cache s"
  by (auto simp: get_many_def split: sum.splits prod.splits dest!: fetch_calls)

lemma list_and_filter_cache:
  assumes "get_list env sch t mk st q1 s = (lr, s1)"
    and "(case lr of Inl e \<Rightarrow> (Inl e, s1)
          | Inr found \<Rightarrow> find_in_list t stamps query found s1) = (res, s')"
    and "\<forall>k \<in> fst ` set stamps. KStr k \<in> set stamp_keys"
    and "cache s t' fp = Some lst"
  shows "\<exists>lst'. cache s' t' fp = Some lst' \<and> unstamped_list lst' = unstamped_list lst"
proof -
  from get_list_cache [OF assms(1,4)] have kept: "cache s1 t' fp = Some lst" .
  show ?thesis
  proof (cases lr)
    case (Inl e)
    with assms(2) kept show ?thesis by simp
  next
    case (Inr found)
    obtain fp0 l where f: "found = (fp0, l)" by (cases found)
    from assms(1) Inr f have "cache s1 t fp0 = Some l" by (simp add: get_list_bound)
    with assms(2,3) Inr f kept show ?thesis
      by (auto intro: find_in_list_cache)
  qed
qed


lemma get_frame_cache:
  assumes "(case validate ctx sch q of
              Inl e \<Rightarrow> (Inl e, s)
            | Inr query \<Rightarrow>
                if c query then
                  (case get_list env lsch t mk st (strip_identity query) s of
                     (Inl e, s1) \<Rightarrow> (Inl e, s1)
                   | (Inr found, s1) \<Rightarrow> find_in_list t (stamps query) query found s1)
                else other query) = (res, s')"
    and "\<And>query r s2. other query = (r, s2) \<Longrightarrow> cache s2 = cache s"
    and "\<And>query. \<forall>k \<in> fst ` set (stamps query). KStr k \<in> set stamp_keys"
    and "cache s t' fp = Some lst"
  shows "\<exists>lst'. cache s' t' fp = Some lst' \<and> unstamped_list lst' = unstamped_list lst"
proof (cases "validate ctx sch q")
  case (Inl e)
  with assms(1,4) show ?thesis by simp
next
  case (Inr query)
  show ?thesis
  proof (cases "c query")
    case False
    with assms(1) Inr have "other query = (res, s')" by simp
    from assms(2) [OF this] assms(4) show ?thesis by simp
  next
    case True
    obtain lr s1 where l: "get_list env lsch t mk st (strip_identity query) s = (lr, s1)"
      by (cases "get_list env lsch t mk st (strip_identity query) s")
    with assms(1) Inr True have
      "(case lr of Inl e \<Rightarrow> (Inl e, s1)
        | Inr found \<Rightarrow> find_in_list t (stamps query) query found s1) = (res, s')"
      by (simp split: sum.splits)
    from list_and_filter_cache [OF l this assms(3) assms(4)] show ?thesis .
  qed
qed

lemma get_dto_cache:
  assumes "get_dto dt env q s = (res, s')" and "cache s t fp = Some lst"
  shows "\<exists>lst'. cache s' t fp = Some lst' \<and> unstamped_list lst' = unstamped_list lst"
proof (cases dt)
  case ChampionDto
  with assms(1) have "get_champion env q s = (res, s')" by simp
  then show ?thesis
    unfolding get_champion_def get_champion_list_def
    by (rule get_frame_cache [where c = "\<lambda>query. request_by_id env \<or> q_has query ''name''"
          and other = "\<lambda>query. get_direct env query ''champions'' ''staticdata/champion'' Inr s"
          and stamps = "\<lambda>query. stamp_fields query (q_get query ''version'')"])
       (auto dest: get_direct_cache simp: stamp_fields_keys assms(2))
next
  case MasteryDto
  with assms(1) have "get_mastery env q s = (res, s')" by simp
  then show ?thesis
    unfolding get_mastery_def get_mastery_list_def
    by (rule get_frame_cache [where c = "\<lambda>query. request_by_id env \<or> q_has query ''name''"
          and other = "\<lambda>query. get_direct env query ''masteries'' ''staticdata/mastery'' Inr s"
          and stamps = "\<lambda>query. stamp_fields query (q_get query ''version'')"])
       (auto dest: get_direct_cache simp: stamp_fields_keys assms(2))
next
  case RuneDto
  with assms(1) have "get_rune env q s = (res, s')" by simp
  then show ?thesis
    unfolding get_rune_def get_rune_list_def
    by (rule get_frame_cache [where c = "\<lambda>query. request_by_id env \<or> q_has query ''name''"
          and other = "\<lambda>query. get_direct env query ''runes'' ''staticdata/rune'' Inr s"
          and stamps = "\<lambda>query. stamp_fields query (q_get query ''version'')"])
       (auto dest: get_direct_cache simp: stamp_fields_keys assms(2))
next
  case ItemDto
  with assms(1) have "get_item env q s = (res, s')" by simp
  then show ?thesis
    unfolding get_item_def get_item_list_def
    by (rule get_frame_cache [where c = "\<lambda>query. request_by_id env \<or> q_has query ''name''"
          and other = "\<lambda>query. get_direct env query ''items'' ''staticdata/item'' normalize_item s"
          and stamps = "\<lambda>query. stamp_fields query (q_get query ''version'')"])
       (auto dest: get_direct_cache simp: stamp_fields_keys assms(2))
next
  case MapDto
  with assms(1) have "get_map env q s = (res, s')" by simp
  then show ?thesis
    unfolding get_map_def get_map_list_def
    by (rule get_frame_cache [where c = "\<lambda>query. request_by_id env \<or> q_has query ''name''"
          and other = "\<lambda>query. (Inr VNone, s)"
          and stamps = "\<lambda>query. stamp_fields_map query"])
       (auto dest: get_direct_cache simp: stamp_fields_keys assms(2))
next
  case SummonerSpellDto
  with assms(1) have "get_summoner_spell env q s = (res, s')" by simp
  then show ?thesis
    unfolding get_summoner_spell_def get_summoner_spell_list_def
    by (rule get_frame_cache [where c = "\<lambda>query. request_by_id env \<or> q_has query ''name''"
          and other = "\<lambda>query. get_direct env query ''summoner-spells'' ''staticdata/summoner-spell'' Inr s"
          and stamps = "\<lambda>query. stamp_fields query (q_get query ''version'')"])
       (auto dest: get_direct_cache simp: stamp_fields_keys assms(2))
qed


text \<open>
  C9 (amended). A cache entry, once stored under its fingerprint, stays stored under it.
  No list operation and no get-many operation changes it. A single-entity get changes
  it at most in the stamped fields (region, version, locale, included data) of the
  records of the list: with these fields put aside, the entry is the one stored.
\<close>

theorem cache_entries_change_only_in_stamps:
  "(get_list_dto lt env q s = (res, s') \<and> cache s t fp = Some lst \<longrightarrow>
      cache s' t fp = Some lst) \<and>
   (get_dto dt env q s = (res2, s2) \<and> cache s t fp = Some lst \<longrightarrow>
      (\<exists>lst'. cache s2 t fp = Some lst' \<and> unstamped_list lst' = unstamped_list lst)) \<and>
   ((get_many_champion env q s = (res3, s3) \<or> get_many_mastery env q s = (res3, s3) \<or>
     get_many_rune env q s = (res3, s3) \<or> get_many_item env q s = (res3, s3) \<or>
     get_many_summoner_spell env q s = (res3, s3)) \<and> cache s t fp = Some lst \<longrightarrow>
      cache s3 t fp = Some lst)"
proof (intro conjI impI; (elim conjE)?)
  assume "get_list_dto lt env q s = (res, s')" and "cache s t fp = Some lst"
  then show "cache s' t fp = Some lst"
    unfolding get_list_dto_frame by (rule get_list_cache)
next
  assume "get_dto dt env q s = (res2, s2)" and "cache s t fp = Some lst"
  then show "\<exists>lst'. cache s2 t fp = Some lst' \<and> unstamped_list lst' = unstamped_list lst"
    by (rule get_dto_cache)
next
  assume "get_many_champion env q s = (res3, s3) \<or> get_many_mastery env q s = (res3, s3) \<or>
     get_many_rune env q s = (res3, s3) \<or> get_many_item env q s = (res3, s3) \<or>
     get_many_summoner_spell env q s = (res3, s3)"
  then have "cache s3 = cache s"
    unfolding get_many_champion_def get_many_mastery_def get_many_rune_def get_many_item_def
      get_many_summoner_spell_def
    by (auto dest: get_many_cache)
  moreover assume "cache s t fp = Some lst"
  ultimately show "cache s3 t fp = Some lst" by simp
qed

text \<open>
  C9 as stated fails: the map list is fetched and stored; a map is then got by name,
  which is served through the list; the record of the map inside the stored list has
  gained the fields region, version and locale.
\<close>

theorem cached_record_mutated_counterexample:
  "cache state_after_list MapListDto map_fingerprint = Some stored_map_list \<and>
   cache state_after_get MapListDto map_fingerprint = Some mutated_map_list \<and>
   stored_map_list \<noteq> mutated_map_list"
  by code_simp

theorem cache_entries_change_only_in_stamps_witness:
  "cache state_after_list MapListDto map_fingerprint = Some stored_map_list \<and>
   cache (snd (get_list_dto MapListDto (sample_env False map_payload) map_list_query
                 state_after_list)) MapListDto map_fingerprint = Some stored_map_list \<and>
   (\<exists>lst'. cache state_after_get MapListDto map_fingerprint = Some lst' \<and>
            unstamped_list lst' = unstamped_list stored_map_list) \<and>
   cache (snd (get_many_champion (sample_env False champion_payload) many_query
                 state_after_list)) MapListDto map_fingerprint = Some stored_map_list"
proof -
  have a: "cache state_after_list MapListDto map_fingerprint = Some stored_map_list"
    by code_simp
  have b: "get_list_dto MapListDto (sample_env False map_payload) map_list_query
      state_after_list =
      (fst (get_list_dto MapListDto (sample_env False map_payload) map_list_query
              state_after_list),
       snd (get_list_dto MapListDto (sample_env False map_payload) map_list_query
              state_after_list))"
    by simp
  have c: "get_dto MapDto (sample_env False map_payload) map_get_query state_after_list =
      (fst (get_dto MapDto (sample_env False map_payload) map_get_query state_after_list),
       state_after_get)"
    by (simp add: state_after_get_def)
  have d: "get_many_champion (sample_env False champion_payload) many_query state_after_list =
      (fst (get_many_champion (sample_env False champion_payload) many_query state_after_list),
       snd (get_many_champion (sample_env False champion_payload) many_query
              state_after_list))"
    by simp
  have p1: "cache (snd (get_list_dto MapListDto (sample_env False map_payload) map_list_query
                 state_after_list)) MapListDto map_fingerprint = Some stored_map_list"
    using cache_entries_change_only_in_stamps [THEN conjunct1, rule_format, OF conjI, OF b a] .
  have p2: "\<exists>lst'. cache state_after_get MapListDto map_fingerprint = Some lst' \<and>
            unstamped_list lst' = unstamped_list stored_map_list"
    using cache_entries_change_only_in_stamps
      [THEN conjunct2, THEN conjunct1, rule_format, OF conjI, OF c a] .
  have p3: "cache (snd (get_many_champion (sample_env False champion_payload) many_query
                 state_after_list)) MapListDto map_fingerprint = Some stored_map_list"
    using cache_entries_change_only_in_stamps
      [THEN conjunct2, THEN conjunct2, rule_format, OF conjI, OF disjI1, OF d a] .
  from a p1 p2 p3 show ?thesis by blast
qed

section \<open>The repair of item records\<close>

lemma default_field_dict:
  assumes "default_field (VDict kvs) k v = Inr b"
  shows "b = (if map_of kvs (KStr k) = None then VDict (AList.update (KStr k) v kvs)
              else VDict kvs)"
  using assms by (auto simp: default_field_def)

lemma normalize_item_dict:
  assumes "normalize_item a = Inr b"
  shows "\<exists>kvs. a = VDict kvs"
  using assms by (cases a) (simp_all add: normalize_item_def)

lemma default_field_result:
  assumes "default_field a k v = Inr b" and "\<exists>kvs. a = VDict kvs"
  shows "(\<exists>kvs. b = VDict kvs) \<and> lacks b k = Inr False \<and> defaulted a b k v \<and>
         (\<forall>k'. k' \<noteq> k \<longrightarrow> subscript b (KStr k') = subscript a (KStr k') \<and>
                         lacks b k' = lacks a k')"
proof -
  from assms(2) obtain kvs where a: "a = VDict kvs" by blast
  with assms(1) show ?thesis
    by (auto simp: default_field_def defaulted_def update_conv' split: if_splits option.splits)
qed

lemma name_set_result:
  assumes "(if py_eq i (VInt 3632) then set_item a ''name'' (VStr []) else Inr a) = Inr b"
    and "subscript a (KStr ''id'') = Inr i"
  shows "(\<exists>kvs. b = VDict kvs) \<and>
         (subscript b (KStr ''id'') = Inr (VInt 3632) \<longrightarrow> subscript b (KStr ''name'') = Inr (VStr [])) \<and>
         (\<forall>k'. k' \<noteq> ''name'' \<longrightarrow> subscript b (KStr k') = subscript a (KStr k') \<and>
                         lacks b k' = lacks a k')"
proof -
  from assms(2) obtain kvs where a: "a = VDict kvs" by (cases a) simp_all
  with assms show ?thesis
    by (cases i) (auto simp: update_conv' split: if_splits option.splits)
qed

lemma normalize_item_repaired:
  assumes "normalize_item a = Inr b"
  shows "item_repaired b \<and> defaulted a b ''tags'' (VList []) \<and> defaulted a b ''depth'' (VInt 1) \<and>
         defaulted a b ''colloq'' (VStr []) \<and> defaulted a b ''plaintext'' (VStr [])"
proof -
  from assms obtain i a1 a2 a3 a4 where
    i: "subscript a (KStr ''id'') = Inr i" and
    s1: "(if py_eq i (VInt 3632) then set_item a ''name'' (VStr []) else Inr a) = Inr a1" and
    s2: "default_field a1 ''tags'' (VList []) = Inr a2" and
    s3: "default_field a2 ''depth'' (VInt 1) = Inr a3" and
    s4: "default_field a3 ''colloq'' (VStr []) = Inr a4" and
    s5: "default_field a4 ''plaintext'' (VStr []) = Inr b"
    by (auto simp: normalize_item_def andthen_def split: sum.splits)
  note r1 = name_set_result [OF s1 i]
  note r2 = default_field_result [OF s2 r1 [THEN conjunct1]]
  note r3 = default_field_result [OF s3 r2 [THEN conjunct1]]
  note r4 = default_field_result [OF s4 r3 [THEN conjunct1]]
  note r5 = default_field_result [OF s5 r4 [THEN conjunct1]]
  have id: "subscript b (KStr ''id'') = subscript a1 (KStr ''id'')"
    and name: "subscript b (KStr ''name'') = subscript a1 (KStr ''name'')"
    using r2 r3 r4 r5 by simp_all
  have "item_repaired b"
    unfolding item_repaired_def using r1 r2 r3 r4 r5 id name by simp
  moreover have "defaulted a b ''tags'' (VList [])"
    using r1 r2 r3 r4 r5 by (simp add: defaulted_def)
  moreover have "defaulted a b ''depth'' (VInt 1)"
    using r1 r2 r3 r4 r5 by (simp add: defaulted_def)
  moreover have "defaulted a b ''colloq'' (VStr [])"
    using r1 r2 r3 r4 r5 by (simp add: defaulted_def)
  moreover have "defaulted a b ''plaintext'' (VStr [])"
    using r1 r2 r3 r4 r5 by (simp add: defaulted_def)
  ultimately show ?thesis by blast
qed


lemma set_item_repaired:
  assumes "set_item a k v = Inr b" and "KStr k \<in> set stamp_keys" and "item_repaired a"
  shows "item_repaired b"
proof -
  from assms(1) obtain kvs where a: "a = VDict kvs" by (cases a) simp_all
  with assms show ?thesis
    by (auto simp: item_repaired_def stamp_keys_def update_conv')
qed

lemma assign_partial_repaired:
  assumes "assign_partial d as = (err, r)" and "\<forall>k \<in> fst ` set as. KStr k \<in> set stamp_keys"
    and "item_repaired d"
  shows "item_repaired r"
  using assms
proof (induction as arbitrary: d)
  case Nil
  then show ?case by simp
next
  case (Cons a as)
  obtain k rhs where a: "a = (k, rhs)" by (cases a)
  show ?case
  proof (cases rhs)
    case (Inl e)
    with Cons.prems a show ?thesis by simp
  next
    case (Inr v)
    show ?thesis
    proof (cases "set_item d k v")
      case (Inl e)
      with Cons.prems a Inr show ?thesis by simp
    next
      case (Inr d')
      with Cons.prems a \<open>rhs = Inr v\<close> have "assign_partial d' as = (err, r)" by simp
      moreover from Cons.prems(2) have "\<forall>k \<in> fst ` set as. KStr k \<in> set stamp_keys" by simp
      moreover from Cons.prems(2) a have "KStr k \<in> set stamp_keys" by simp
      with Inr Cons.prems(3) have "item_repaired d'" by (blast intro: set_item_repaired)
      ultimately show ?thesis by (rule Cons.IH)
    qed
  qed
qed

lemma assign_all_repaired:
  assumes "assign_all d (stamp_fields q v) = Inr r" and "item_repaired d"
  shows "item_repaired r"
proof -
  from assms(1) have "assign_partial d (stamp_fields q v) = (None, r)"
    by (auto simp: assign_all_def split: prod.splits option.splits)
  from this stamp_fields_keys(1) assms(2) show ?thesis by (rule assign_partial_repaired)
qed

lemma stamp_item_list_repaired:
  assumes "stamp_item_list q data0 = Inr lst"
  shows "records_repaired lst"
proof (cases "data_values lst")
  case (Inl e)
  then show ?thesis by (simp add: records_repaired_def)
next
  case (Inr kvs)
  from assms obtain data where fe:
    "for_each_value data (\<lambda>item. andthen (normalize_item item) (\<lambda>item'.
       assign_all item' (stamp_fields q (q_get q ''version'')))) = Inr lst"
    by (auto simp: stamp_item_list_def andthen_def split: sum.splits)
  have "item_repaired (snd kv)" if "kv \<in> set kvs" for kv
  proof -
    from that have "(fst kv, snd kv) \<in> set kvs" by simp
    from for_each_value_result [OF fe Inr this] obtain v where
      "andthen (normalize_item v) (\<lambda>item'.
          assign_all item' (stamp_fields q (q_get q ''version''))) = Inr (snd kv)"
      by blast
    then obtain item' where "normalize_item v = Inr item'"
      "assign_all item' (stamp_fields q (q_get q ''version'')) = Inr (snd kv)"
      by (cases "normalize_item v") simp_all
    then show ?thesis
      using normalize_item_repaired assign_all_repaired by blast
  qed
  with Inr show ?thesis by (simp add: records_repaired_def)
qed

lemma get_list_other_type:
  assumes "get_list env sch t mk st q s = (res, s1)" and "t' \<noteq> t"
  shows "cache s1 t' = cache s t'"
  using assms
  by (auto simp: get_list_def Let_def split: sum.splits option.splits prod.splits
      dest!: fetch_calls)

lemma get_list_item_cache:
  assumes "get_list env sch ItemListDto mk stamp_item_list q s = (res, s1)"
    and "item_cache_ok s"
  shows "item_cache_ok s1 \<and> (\<forall>fp lst. res = Inr (fp, lst) \<longrightarrow> records_repaired lst)"
proof (cases "validate (pipeline env) sch q")
  case (Inl e)
  with assms show ?thesis by (auto simp: get_list_def)
next
  case (Inr query)
  let ?h = "calculate_hash (hash_included_data env) query"
  show ?thesis
  proof (cases "cache s ItemListDto ?h")
    case (Some l)
    with assms Inr show ?thesis by (auto simp: get_list_def Let_def item_cache_ok_def)
  next
    case None
    show ?thesis
    proof (cases res)
      case (Inl e)
      with assms Inr None have "cache s1 = cache s"
        by (auto simp: get_list_def Let_def split: sum.splits prod.splits dest!: fetch_calls)
      with assms(2) Inl show ?thesis by (simp add: item_cache_ok_def)
    next
      case res: (Inr found)
      obtain fp lst where f: "found = (fp, lst)" by (cases found)
      from assms(1) Inr None res f obtain data s0 where
        st: "stamp_item_list query data = Inr lst" and c0: "cache s0 = cache s"
        and s1: "s1 = s0\<lparr>cache := (cache s0)(ItemListDto := (cache s0 ItemListDto)(?h \<mapsto> lst))\<rparr>"
        by (auto simp: get_list_def Let_def split: sum.splits prod.splits dest!: fetch_calls)
      from st have "records_repaired lst" by (rule stamp_item_list_repaired)
      with assms(2) c0 s1 res f show ?thesis by (auto simp: item_cache_ok_def)
    qed
  qed
qed


lemma data_values_put_record_at:
  assumes "data_values l = Inr kvs" and "n < length kvs"
  shows "data_values (put_record_at l n r) = Inr (kvs[n := (fst (kvs ! n), r)])"
proof -
  from assms(1) obtain outer where "l = VDict outer"
    and "map_of outer (KStr ''data'') = Some (VDict kvs)"
    by (cases l)
       (auto simp: data_values_def andthen_def split: option.splits pyval.splits sum.splits)
  with assms(2) show ?thesis
    by (simp add: put_record_at_def data_values_def update_conv')
qed

lemma put_record_at_repaired:
  assumes "records_repaired l" and "data_values l = Inr kvs" and "n < length kvs"
    and "item_repaired r"
  shows "records_repaired (put_record_at l n r)"
proof -
  from assms(1,2) have "\<forall>kv \<in> set kvs. item_repaired (snd kv)"
    by (simp add: records_repaired_def)
  with assms(4) have "\<forall>kv \<in> set (kvs[n := (fst (kvs ! n), r)]). item_repaired (snd kv)"
    by (auto dest!: set_update_subset_insert [THEN subsetD])
  with data_values_put_record_at [OF assms(2,3)] show ?thesis
    by (simp add: records_repaired_def)
qed

lemma find_in_list_item:
  assumes "find_in_list t stamps query (fp0, l) s = (res, s')"
    and "\<forall>k \<in> fst ` set stamps. KStr k \<in> set stamp_keys"
    and "cache s t fp0 = Some l"
    and "item_cache_ok s"
  shows "item_cache_ok s' \<and> (t = ItemListDto \<longrightarrow> (\<forall>r. res = Inr r \<longrightarrow> item_repaired r))"
  using find_in_list_steps [OF assms(1)]
proof
  assume "s' = s \<and> (\<exists>e. res = Inl e)"
  with assms(4) show ?thesis by auto
next
  assume "\<exists>kvs a v n dto err dto'. data_values l = Inr kvs \<and>
            find_matching_attribute kvs a v = Inr (Some (n, dto)) \<and>
            assign_partial dto stamps = (err, dto') \<and>
            res = (case err of None \<Rightarrow> Inr dto' | Some e \<Rightarrow> Inl e) \<and>
            s' = s\<lparr>cache := (cache s)(t := (cache s t)(fp0 \<mapsto> put_record_at l n dto'))\<rparr>"
  then obtain kvs a v n dto err dto' where kvs: "data_values l = Inr kvs"
    and found: "find_matching_attribute kvs a v = Inr (Some (n, dto))"
    and ap: "assign_partial dto stamps = (err, dto')"
    and res: "res = (case err of None \<Rightarrow> Inr dto' | Some e \<Rightarrow> Inl e)"
    and s': "s' = s\<lparr>cache := (cache s)(t := (cache s t)(fp0 \<mapsto> put_record_at l n dto'))\<rparr>"
    by blast
  show ?thesis
  proof (cases "t = ItemListDto")
    case False
    with s' assms(4) show ?thesis by (simp add: item_cache_ok_def)
  next
    case True
    from find_matching_attribute_position [OF found]
    have n: "n < length kvs" "snd (kvs ! n) = dto" by simp_all
    from assms(3,4) True have l: "records_repaired l" by (simp add: item_cache_ok_def)
    with kvs n have "item_repaired dto"
      by (auto simp: records_repaired_def dest: nth_mem)
    with ap assms(2) have dto': "item_repaired dto'" by (blast intro: assign_partial_repaired)
    with l kvs n have "records_repaired (put_record_at l n dto')"
      by (simp add: put_record_at_repaired)
    with s' assms(4) True have "item_cache_ok s'" by (simp add: item_cache_ok_def)
    moreover from res dto' have "\<forall>r. res = Inr r \<longrightarrow> item_repaired r"
      by (cases err) simp_all
    ultimately show ?thesis by simp
  qed
qed

lemma get_list_dto_item:
  assumes "get_list_dto lt env q s = (res, s1)" and "item_cache_ok s"
  shows "item_cache_ok s1 \<and>
         (lt = ItemListDto \<longrightarrow> (\<forall>fp lst. res = Inr (fp, lst) \<longrightarrow> records_repaired lst))"
proof (cases "lt = ItemListDto")
  case True
  with assms show ?thesis
    by (simp add: get_item_list_def get_list_item_cache)
next
  case False
  from assms(1) have "cache s1 ItemListDto = cache s ItemListDto"
    unfolding get_list_dto_frame using False by (auto dest: get_list_other_type)
  with assms(2) False show ?thesis by (simp add: item_cache_ok_def)
qed


lemma get_direct_item:
  assumes "get_direct env query p b normalize_item s = (Inr x, s2)"
  shows "item_repaired x"
proof -
  from assms obtain y where "normalize_item y = Inr x"
    by (auto simp: get_direct_def andthen_def split: sum.splits prod.splits)
  then show ?thesis by (simp add: normalize_item_repaired)
qed

lemma get_frame_item:
  assumes "(case validate ctx sch q of
              Inl e \<Rightarrow> (Inl e, s)
            | Inr query \<Rightarrow>
                if c query then
                  (case get_list env lsch t mk st (strip_identity query) s of
                     (Inl e, s1) \<Rightarrow> (Inl e, s1)
                   | (Inr found, s1) \<Rightarrow> find_in_list t (stamps query) query found s1)
                else other query) = (res, s')"
    and "get_list env lsch t mk st = get_list_dto t env"
    and "\<And>query r s2. other query = (r, s2) \<Longrightarrow>
           cache s2 = cache s \<and> (t = ItemListDto \<longrightarrow> (\<forall>x. r = Inr x \<longrightarrow> item_repaired x))"
    and "\<And>query. \<forall>k \<in> fst ` set (stamps query). KStr k \<in> set stamp_keys"
    and "item_cache_ok s"
  shows "item_cache_ok s' \<and> (t = ItemListDto \<longrightarrow> (\<forall>r. res = Inr r \<longrightarrow> item_repaired r))"
proof (cases "validate ctx sch q")
  case (Inl e)
  with assms(1,5) show ?thesis by auto
next
  case (Inr query)
  show ?thesis
  proof (cases "c query")
    case False
    with assms(1) Inr have "other query = (res, s')" by simp
    from assms(3) [OF this] assms(5) show ?thesis by (simp add: item_cache_ok_def)
  next
    case True
    obtain lr s1 where l: "get_list env lsch t mk st (strip_identity query) s = (lr, s1)"
      by (cases "get_list env lsch t mk st (strip_identity query) s")
    with assms(2) have "get_list_dto t env (strip_identity query) s = (lr, s1)" by simp
    from get_list_dto_item [OF this assms(5)] have ok1: "item_cache_ok s1" by simp
    show ?thesis
    proof (cases lr)
      case (Inl e)
      with assms(1) Inr True l ok1 show ?thesis by auto
    next
      case found: (Inr found)
      obtain fp0 l0 where f: "found = (fp0, l0)" by (cases found)
      from l found f have "cache s1 t fp0 = Some l0" by (simp add: get_list_bound)
      moreover from assms(1) Inr True l found f
      have "find_in_list t (stamps query) query (fp0, l0) s1 = (res, s')" by simp
      ultimately show ?thesis using assms(4) ok1 by (blast dest: find_in_list_item)
    qed
  qed
qed


lemma get_dto_item:
  assumes "get_dto dt env q s = (res, s')" and "item_cache_ok s"
  shows "item_cache_ok s' \<and> (dt = ItemDto \<longrightarrow> (\<forall>r. res = Inr r \<longrightarrow> item_repaired r))"
proof (cases dt)
  case ChampionDto
  with assms(1) have "get_champion env q s = (res, s')" by simp
  then have "item_cache_ok s' \<and>
      (ChampionListDto = ItemListDto \<longrightarrow> (\<forall>r. res = Inr r \<longrightarrow> item_repaired r))"
    unfolding get_champion_def get_champion_list_def
    by (rule get_frame_item [where c = "\<lambda>query. request_by_id env \<or> q_has query ''name''"
          and other = "\<lambda>query. get_direct env query ''champions'' ''staticdata/champion'' Inr s"
          and stamps = "\<lambda>query. stamp_fields query (q_get query ''version'')"])
       (auto dest: get_direct_cache get_direct_item
          simp: stamp_fields_keys assms(2) get_champion_list_def)
  with ChampionDto show ?thesis by simp
next
  case MasteryDto
  with assms(1) have "get_mastery env q s = (res, s')" by simp
  then have "item_cache_ok s' \<and>
      (MasteryListDto = ItemListDto \<longrightarrow> (\<forall>r. res = Inr r \<longrightarrow> item_repaired r))"
    unfolding get_mastery_def get_mastery_list_def
    by (rule get_frame_item [where c = "\<lambda>query. request_by_id env \<or> q_has query ''name''"
          and other = "\<lambda>query. get_direct env query ''masteries'' ''staticdata/mastery'' Inr s"
          and stamps = "\<lambda>query. stamp_fields query (q_get query ''version'')"])
       (auto dest: get_direct_cache get_direct_item
          simp: stamp_fields_keys assms(2) get_mastery_list_def)
  with MasteryDto show ?thesis by simp
next
  case RuneDto
  with assms(1) have "get_rune env q s = (res, s')" by simp
  then have "item_cache_ok s' \<and>
      (RuneListDto = ItemListDto \<longrightarrow> (\<forall>r. res = Inr r \<longrightarrow> item_repaired r))"
    unfolding get_rune_def get_rune_list_def
    by (rule get_frame_item [where c = "\<lambda>query. request_by_id env \<or> q_has query ''name''"
          and other = "\<lambda>query. get_direct env query ''runes'' ''staticdata/rune'' Inr s"
          and stamps = "\<lambda>query. stamp_fields query (q_get query ''version'')"])
       (auto dest: get_direct_cache get_direct_item
          simp: stamp_fields_keys assms(2) get_rune_list_def)
  with RuneDto show ?thesis by simp
next
  case ItemDto
  with assms(1) have "get_item env q s = (res, s')" by simp
  then have "item_cache_ok s' \<and>
      (ItemListDto = ItemListDto \<longrightarrow> (\<forall>r. res = Inr r \<longrightarrow> item_repaired r))"
    unfolding get_item_def get_item_list_def
    by (rule get_frame_item [where c = "\<lambda>query. request_by_id env \<or> q_has query ''name''"
          and other = "\<lambda>query. get_direct env query ''items'' ''staticdata/item'' normalize_item s"
          and stamps = "\<lambda>query. stamp_fields query (q_get query ''version'')"])
       (auto dest: get_direct_cache get_direct_item
          simp: stamp_fields_keys assms(2) get_item_list_def)
  with ItemDto show ?thesis by simp
next
  case MapDto
  with assms(1) have "get_map env q s = (res, s')" by simp
  then have "item_cache_ok s' \<and>
      (MapListDto = ItemListDto \<longrightarrow> (\<forall>r. res = Inr r \<longrightarrow> item_repaired r))"
    unfolding get_map_def get_map_list_def
    by (rule get_frame_item [where c = "\<lambda>query. request_by_id env \<or> q_has query ''name''"
          and other = "\<lambda>query. (Inr VNone, s)"
          and stamps = "\<lambda>query. stamp_fields_map query"])
       (auto dest: get_direct_cache get_direct_item
          simp: stamp_fields_keys assms(2) get_map_list_def)
  with MapDto show ?thesis by simp
next
  case SummonerSpellDto
  with assms(1) have "get_summoner_spell env q s = (res, s')" by simp
  then have "item_cache_ok s' \<and>
      (SummonerSpellListDto = ItemListDto \<longrightarrow> (\<forall>r. res = Inr r \<longrightarrow> item_repaired r))"
    unfolding get_summoner_spell_def get_summoner_spell_list_def
    by (rule get_frame_item [where c = "\<lambda>query. request_by_id env \<or> q_has query ''name''"
          and other = "\<lambda>query. get_direct env query ''summoner-spells'' ''staticdata/summoner-spell'' Inr s"
          and stamps = "\<lambda>query. stamp_fields query (q_get query ''version'')"])
       (auto dest: get_direct_cache get_direct_item
          simp: stamp_fields_keys assms(2) get_summoner_spell_list_def)
  with SummonerSpellDto show ?thesis by simp
qed

lemma pulls_property:
  assumes "\<And>q data i r d'. element g q data i = Inr (r, d') \<Longrightarrow> P r"
    and "Yield r \<in> set (pulls n g)"
  shows "P r"
  using assms
proof (induction n arbitrary: g)
  case 0
  then show ?case by simp
next
  case (Suc n)
  obtain x g' where nx: "gen_next g = (x, g')" by (cases "gen_next g")
  from gen_next_frame [OF nx] have fr: "element g' = element g" by simp
  from Suc.prems(2) nx have "x = Yield r \<or> Yield r \<in> set (pulls n g')" by auto
  then show ?case
  proof
    assume "x = Yield r"
    with gen_next_yield [OF nx] Suc.prems(1) show ?thesis by blast
  next
    assume "Yield r \<in> set (pulls n g')"
    with Suc.IH [of g'] Suc.prems(1) fr show ?thesis by simp
  qed
qed

lemma item_element_repaired:
  assumes "item_element q data i = Inr (r, d')"
  shows "item_repaired r"
proof -
  from assms obtain y where "normalize_item y = Inr r"
    by (auto simp: item_element_def andthen_def split: sum.splits)
  then show ?thesis by (simp add: normalize_item_repaired)
qed

text \<open>
  C7. The repair of an item record sets the name to the empty string when the id is
  3632 and gives an absent tags, depth, colloq or plaintext field the value \<^verbatim>\<open>[]\<close>,
  1, \<^verbatim>\<open>""\<close> or \<^verbatim>\<open>""\<close>; a field that is present is kept. Every item record produced
  is repaired: the record of a single get (by direct fetch, or found in the list), the
  records of an item list (fetched or taken from the cache) and the records yielded by
  the get-many sequence. For the records that come from the cache this rests on an
  invariant: every record of every cached item list is repaired. The invariant holds
  in the initial state and every operation of the service preserves it.
\<close>

theorem item_records_repaired:
  "(normalize_item raw = Inr r \<longrightarrow>
      item_repaired r \<and> defaulted raw r ''tags'' (VList []) \<and>
      defaulted raw r ''depth'' (VInt 1) \<and> defaulted raw r ''colloq'' (VStr []) \<and>
      defaulted raw r ''plaintext'' (VStr [])) \<and>
   item_cache_ok init_state \<and>
   (item_cache_ok s \<and> get_dto dt env q s = (res, s') \<longrightarrow>
      item_cache_ok s' \<and> (dt = ItemDto \<longrightarrow> (\<forall>x. res = Inr x \<longrightarrow> item_repaired x))) \<and>
   (item_cache_ok s \<and> get_list_dto lt env q s = (lres, ls') \<longrightarrow>
      item_cache_ok ls' \<and>
      (lt = ItemListDto \<longrightarrow> (\<forall>fp lst. lres = Inr (fp, lst) \<longrightarrow> records_repaired lst))) \<and>
   (item_cache_ok s \<and>
    (get_many_champion env q s = (mres, ms') \<or> get_many_mastery env q s = (mres, ms') \<or>
     get_many_rune env q s = (mres, ms') \<or> get_many_item env q s = (mres, ms') \<or>
     get_many_summoner_spell env q s = (mres, ms')) \<longrightarrow> item_cache_ok ms') \<and>
   (get_many_item env q s = (Inr g, gs') \<and> Yield y \<in> set (pulls n g) \<longrightarrow> item_repaired y)"
proof (intro conjI impI; (elim conjE)?)
  assume "normalize_item raw = Inr r"
  from normalize_item_repaired [OF this]
  show "item_repaired r" "defaulted raw r ''tags'' (VList [])"
    "defaulted raw r ''depth'' (VInt 1)" "defaulted raw r ''colloq'' (VStr [])"
    "defaulted raw r ''plaintext'' (VStr [])"
    by simp_all
next
  show "item_cache_ok init_state" by (simp add: item_cache_ok_def init_state_def)
next
  assume "item_cache_ok s" and "get_dto dt env q s = (res, s')"
  from get_dto_item [OF this(2,1)] show "item_cache_ok s'" by simp
next
  assume "item_cache_ok s" and "get_dto dt env q s = (res, s')" and "dt = ItemDto"
  with get_dto_item [OF this(2,1)] show "\<forall>x. res = Inr x \<longrightarrow> item_repaired x" by simp
next
  assume "item_cache_ok s" and "get_list_dto lt env q s = (lres, ls')"
  from get_list_dto_item [OF this(2,1)] show "item_cache_ok ls'" by simp
next
  assume "item_cache_ok s" and "get_list_dto lt env q s = (lres, ls')" and "lt = ItemListDto"
  with get_list_dto_item [OF this(2,1)]
  show "\<forall>fp lst. lres = Inr (fp, lst) \<longrightarrow> records_repaired lst" by simp
next
  assume ok: "item_cache_ok s"
    and "get_many_champion env q s = (mres, ms') \<or> get_many_mastery env q s = (mres, ms') \<or>
     get_many_rune env q s = (mres, ms') \<or> get_many_item env q s = (mres, ms') \<or>
     get_many_summoner_spell env q s = (mres, ms')"
  then have "cache ms' = cache s"
    unfolding get_many_champion_def get_many_mastery_def get_many_rune_def get_many_item_def
      get_many_summoner_spell_def
    by (auto dest: get_many_cache)
  with ok show "item_cache_ok ms'" by (simp add: item_cache_ok_def)
next
  assume "get_many_item env q s = (Inr g, gs')" and y: "Yield y \<in> set (pulls n g)"
  then have "element g = item_element"
    unfolding get_many_item_def by (auto dest!: get_many_generator)
  then have "\<And>q data i r d'. element g q data i = Inr (r, d') \<Longrightarrow> item_repaired r"
    by (simp add: item_element_repaired)
  from this y show "item_repaired y" by (rule pulls_property)
qed


theorem item_records_repaired_witness:
  "normalize_item item_payload = Inr repaired_item \<and> item_repaired repaired_item \<and>
   defaulted item_payload repaired_item ''tags'' (VList []) \<and>
   defaulted item_payload repaired_item ''depth'' (VInt 1) \<and>
   fst (get_dto ItemDto (sample_env False item_payload) item_get_query init_state) =
     Inr direct_item \<and> item_repaired direct_item \<and>
   item_cache_ok item_list_state \<and>
   fst (get_dto ItemDto (sample_env True item_list_payload) item_get_query item_list_state) =
     Inr listed_item \<and> item_repaired listed_item \<and>
   Yield yielded_item \<in> set (pulls 1 (projr (fst
     (get_many_item (sample_env False item_list_payload) item_many_query init_state)))) \<and>
   item_repaired yielded_item"
proof -
  have n: "normalize_item item_payload = Inr repaired_item"
    by code_simp
  have n': "item_repaired repaired_item \<and> defaulted item_payload repaired_item ''tags'' (VList []) \<and>
      defaulted item_payload repaired_item ''depth'' (VInt 1)"
    using item_records_repaired [where raw = item_payload and r = repaired_item] n by simp
  have ok0: "item_cache_ok init_state"
    using item_records_repaired by simp
  have d: "fst (get_dto ItemDto (sample_env False item_payload) item_get_query init_state) =
      Inr direct_item"
    by code_simp
  then have d': "get_dto ItemDto (sample_env False item_payload) item_get_query init_state =
      (Inr direct_item,
       snd (get_dto ItemDto (sample_env False item_payload) item_get_query init_state))"
    by (metis prod.collapse)
  have pd: "item_repaired direct_item"
    using item_records_repaired [where s = init_state and dt = ItemDto
        and env = "sample_env False item_payload" and q = item_get_query
        and res = "Inr direct_item"
        and s' = "snd (get_dto ItemDto (sample_env False item_payload) item_get_query
                         init_state)"] ok0 d'
    by simp
  have l: "get_list_dto ItemListDto (sample_env False item_list_payload) list_query1 init_state =
      (fst (get_list_dto ItemListDto (sample_env False item_list_payload) list_query1
              init_state), item_list_state)"
    by (simp add: item_list_state_def)
  have ok1: "item_cache_ok item_list_state"
    using item_records_repaired [where s = init_state and lt = ItemListDto
        and env = "sample_env False item_list_payload" and q = list_query1
        and lres = "fst (get_list_dto ItemListDto (sample_env False item_list_payload)
                           list_query1 init_state)"
        and ls' = item_list_state] ok0 l
    by simp
  have f: "fst (get_dto ItemDto (sample_env True item_list_payload) item_get_query
      item_list_state) = Inr listed_item"
    by code_simp
  then have f': "get_dto ItemDto (sample_env True item_list_payload) item_get_query
      item_list_state =
      (Inr listed_item,
       snd (get_dto ItemDto (sample_env True item_list_payload) item_get_query item_list_state))"
    by (metis prod.collapse)
  have pf: "item_repaired listed_item"
    using item_records_repaired [where s = item_list_state and dt = ItemDto
        and env = "sample_env True item_list_payload" and q = item_get_query
        and res = "Inr listed_item"
        and s' = "snd (get_dto ItemDto (sample_env True item_list_payload) item_get_query
                         item_list_state)"] ok1 f'
    by simp
  have m: "\<not> isl (fst (get_many_item (sample_env False item_list_payload) item_many_query
      init_state))"
    by code_simp
  then have m': "get_many_item (sample_env False item_list_payload) item_many_query init_state =
      (Inr (projr (fst (get_many_item (sample_env False item_list_payload) item_many_query
                          init_state))),
       snd (get_many_item (sample_env False item_list_payload) item_many_query init_state))"
    by (metis prod.collapse sum.collapse(2))
  have y: "Yield yielded_item \<in> set (pulls 1 (projr (fst
      (get_many_item (sample_env False item_list_payload) item_many_query init_state))))"
    by code_simp
  have pm: "item_repaired yielded_item"
    using item_records_repaired [where s = init_state
        and env = "sample_env False item_list_payload" and q = item_many_query
        and g = "projr (fst (get_many_item (sample_env False item_list_payload)
                               item_many_query init_state))"
        and gs' = "snd (get_many_item (sample_env False item_list_payload) item_many_query
                          init_state)"
        and y = yielded_item and n = 1] m' y
    by simp
  from n n' d pd ok1 f pf y pm show ?thesis by simp
qed

section \<open>The lookup of a summoner spell\<close>

text \<open>
  C10. The sequence of \<^verbatim>\<open>get_many_summoner_spell\<close> looks the id up as it is. At any
  pull with a pending id, the first pull of the sequence the operation returns
  included, the outcome is decided by the entry of the payload under the id itself:
  with no such entry the pull raises \<open>NotFoundError\<close>, with one the pull yields that
  record, stamped. On the same payload, query and pending ids the sequences of the
  champions, masteries, runes and items are decided by the entry under \<^verbatim>\<open>str(id)\<close>
  instead.
\<close>

theorem summoner_spell_looked_up_by_raw_id:
  assumes "get_many_summoner_spell env q s = (Inr g, s') \<or>
           (element g = summoner_spell_element \<and> progress g \<noteq> Finished)"
    and "pending g = Inr (i # rest)"
    and "subscript (gdata g) (KStr ''data'') = Inr (VDict kvs)"
  shows "fst (gen_next g) =
           (case map_of kvs i of
              None \<Rightarrow> Raise NotFoundError
            | Some r \<Rightarrow> outcome (assign_all r
                (stamp_fields (gquery g) (subscript (gdata g) (KStr ''version''))))) \<and>
         (map_of kvs i = None \<longrightarrow> fst (gen_next g) = Raise NotFoundError) \<and>
         (\<forall>el \<in> {champion_element, mastery_element, rune_element}.
            fst (gen_next (g\<lparr>element := el\<rparr>)) =
              (case map_of kvs (KStr (str_key i)) of
                 None \<Rightarrow> Raise NotFoundError
               | Some r \<Rightarrow> outcome (assign_all r
                   (stamp_fields (gquery g) (subscript (gdata g) (KStr ''version'')))))) \<and>
         fst (gen_next (g\<lparr>element := item_element\<rparr>)) =
           (case map_of kvs (KStr (str_key i)) of
              None \<Rightarrow> Raise NotFoundError
            | Some r \<Rightarrow> outcome (andthen (assign_all r
                (stamp_fields (gquery g) (subscript (gdata g) (KStr ''version''))))
                normalize_item))"
proof -
  from assms(1) have el: "element g = summoner_spell_element" and pr: "progress g \<noteq> Finished"
    unfolding get_many_summoner_spell_def by (auto dest!: get_many_generator)
  have look: "lookup_record (gdata g) k =
      (case map_of kvs k of None \<Rightarrow> Inl NotFoundError | Some r \<Rightarrow> Inr r)" for k
    using assms(3) by (simp add: lookup_record_def split: option.splits)
  from pr assms(2) have "gen_next g = step_ids g (i # rest)"
    by (rule gen_next_pending)
  with el have own: "fst (gen_next g) =
      (case map_of kvs i of
         None \<Rightarrow> Raise NotFoundError
       | Some r \<Rightarrow> outcome (assign_all r
           (stamp_fields (gquery g) (subscript (gdata g) (KStr ''version'')))))"
    by (simp add: summoner_spell_element_def look outcome_def andthen_def
        split: option.splits sum.splits)
  have other: "gen_next (g\<lparr>element := e\<rparr>) = step_ids (g\<lparr>element := e\<rparr>) (i # rest)" for e
    using pr assms(2)
    by (intro gen_next_pending) (auto simp: pending_def split: progress.splits)
  have three: "fst (gen_next (g\<lparr>element := e\<rparr>)) =
      (case map_of kvs (KStr (str_key i)) of
         None \<Rightarrow> Raise NotFoundError
       | Some r \<Rightarrow> outcome (assign_all r
           (stamp_fields (gquery g) (subscript (gdata g) (KStr ''version'')))))"
    if "e \<in> {champion_element, mastery_element, rune_element}" for e
    using that
    by (auto simp: other champion_element_def mastery_element_def rune_element_def look
        outcome_def andthen_def split: option.splits sum.splits)
  have item: "fst (gen_next (g\<lparr>element := item_element\<rparr>)) =
      (case map_of kvs (KStr (str_key i)) of
         None \<Rightarrow> Raise NotFoundError
       | Some r \<Rightarrow> outcome (andthen (assign_all r
           (stamp_fields (gquery g) (subscript (gdata g) (KStr ''version''))))
           normalize_item))"
    by (auto simp: other item_element_def look outcome_def andthen_def
        split: option.splits sum.splits)
  from own three item show ?thesis by simp
qed

theorem summoner_spell_looked_up_by_raw_id_witness:
  "pending spell_generator = Inr [KInt 1] \<and>
   subscript (gdata spell_generator) (KStr ''data'') =
     Inr (VDict [(KStr ''1'', VDict [(KStr ''id'', VInt 1), (KStr ''name'', VStr ''Annie'')])]) \<and>
   fst (gen_next spell_generator) = Raise NotFoundError \<and>
   fst (gen_next (spell_generator\<lparr>element := champion_element\<rparr>)) = Yield stamped_annie \<and>
   pending int_keyed_generator = Inr [KInt 1] \<and>
   fst (gen_next int_keyed_generator) = Yield stamped_annie"
proof -
  have "\<not> isl (fst (get_many_summoner_spell (sample_env False champion_payload) many_query
      init_state))"
    by code_simp
  then have a: "get_many_summoner_spell (sample_env False champion_payload) many_query
      init_state =
      (Inr spell_generator,
       snd (get_many_summoner_spell (sample_env False champion_payload) many_query init_state))"
    unfolding spell_generator_def by (metis prod.collapse sum.collapse(2))
  have b: "pending spell_generator = Inr (KInt 1 # [])"
    by code_simp
  have c: "subscript (gdata spell_generator) (KStr ''data'') =
      Inr (VDict [(KStr ''1'', VDict [(KStr ''id'', VInt 1), (KStr ''name'', VStr ''Annie'')])])"
    by code_simp
  note t1 = summoner_spell_looked_up_by_raw_id [OF disjI1 [OF a] b c]
  have c1: "fst (gen_next spell_generator) = Raise NotFoundError"
    using t1 by simp
  have "(case map_of [(KStr ''1'', VDict [(KStr ''id'', VInt 1), (KStr ''name'', VStr ''Annie'')])]
                 (KStr (str_key (KInt 1))) of
           None \<Rightarrow> Raise NotFoundError
         | Some r \<Rightarrow> outcome (assign_all r
             (stamp_fields (gquery spell_generator)
                (subscript (gdata spell_generator) (KStr ''version''))))) = Yield stamped_annie"
    by code_simp
  with t1 have c2: "fst (gen_next (spell_generator\<lparr>element := champion_element\<rparr>)) =
      Yield stamped_annie"
    by simp
  have d: "element int_keyed_generator = summoner_spell_element \<and>
      progress int_keyed_generator \<noteq> Finished"
    by (simp add: int_keyed_generator_def)
  have e: "pending int_keyed_generator = Inr (KInt 1 # [])"
    by (simp add: int_keyed_generator_def pending_def)
  have f: "subscript (gdata int_keyed_generator) (KStr ''data'') =
      Inr (VDict [(KInt 1, VDict [(KStr ''id'', VInt 1), (KStr ''name'', VStr ''Annie'')])])"
    by (simp add: int_keyed_generator_def int_keyed_payload_def)
  note t2 = summoner_spell_looked_up_by_raw_id [OF disjI2 [OF d] e f]
  have "(case map_of [(KInt 1, VDict [(KStr ''id'', VInt 1), (KStr ''name'', VStr ''Annie'')])]
                 (KInt 1) of
           None \<Rightarrow> Raise NotFoundError
         | Some r \<Rightarrow> outcome (assign_all r
             (stamp_fields (gquery int_keyed_generator)
                (subscript (gdata int_keyed_generator) (KStr ''version''))))) = Yield stamped_annie"
    by code_simp
  with t2 have c3: "fst (gen_next int_keyed_generator) = Yield stamped_annie"
    by simp
  from b c c1 c2 e c3 show ?thesis by simp
qed

end
